theory Spec2Isabelle
  imports Complex_Main "HOL-Library.AList" "HOL-Library.Multiset"
begin

section \<open>JavaScript numbers\<close>

text \<open>
  The service module computes with JavaScript numbers. A finite double is idealised as a
  real (rounding and overflow are not modelled); the three special values are kept, since
  the code produces \<open>NaN\<close> from \<open>0 / 0\<close> and from arithmetic on \<open>undefined\<close>.
  Signed zeros are not distinguished.
\<close>

datatype jsnum = Num real | PosInf | NegInf | NaN

fun js_truthy :: "jsnum \<Rightarrow> bool" where
  "js_truthy (Num x) = (x \<noteq> 0)"
| "js_truthy NaN = False"
| "js_truthy PosInf = True"
| "js_truthy NegInf = True"

text \<open>\<open>v > 0\<close> on a number; every comparison with \<open>NaN\<close> is false.\<close>

fun js_positive :: "jsnum \<Rightarrow> bool" where
  "js_positive (Num x) = (0 < x)"
| "js_positive PosInf = True"
| "js_positive NegInf = False"
| "js_positive NaN = False"

fun js_is_zero :: "jsnum \<Rightarrow> bool" where
  "js_is_zero (Num x) = (x = 0)"
| "js_is_zero PosInf = False"
| "js_is_zero NegInf = False"
| "js_is_zero NaN = False"

fun jsneg :: "jsnum \<Rightarrow> jsnum" where
  "jsneg (Num x) = Num (- x)"
| "jsneg PosInf = NegInf"
| "jsneg NegInf = PosInf"
| "jsneg NaN = NaN"

fun jsadd :: "jsnum \<Rightarrow> jsnum \<Rightarrow> jsnum" where
  "jsadd (Num a) (Num b) = Num (a + b)"
| "jsadd NaN y = NaN"
| "jsadd x NaN = NaN"
| "jsadd PosInf NegInf = NaN"
| "jsadd NegInf PosInf = NaN"
| "jsadd PosInf y = PosInf"
| "jsadd x PosInf = PosInf"
| "jsadd NegInf y = NegInf"
| "jsadd x NegInf = NegInf"

definition jssub :: "jsnum \<Rightarrow> jsnum \<Rightarrow> jsnum" where
  "jssub x y = jsadd x (jsneg y)"

fun jsmul :: "jsnum \<Rightarrow> jsnum \<Rightarrow> jsnum" where
  "jsmul (Num a) (Num b) = Num (a * b)"
| "jsmul NaN y = NaN"
| "jsmul x NaN = NaN"
| "jsmul x y =
     (if js_is_zero x \<or> js_is_zero y then NaN
      else if js_positive x = js_positive y then PosInf else NegInf)"

fun jssqrt :: "jsnum \<Rightarrow> jsnum" where
  "jssqrt (Num x) = (if x < 0 then NaN else Num (sqrt x))"
| "jssqrt PosInf = PosInf"
| "jssqrt NegInf = NaN"
| "jssqrt NaN = NaN"

fun jsdiv :: "jsnum \<Rightarrow> jsnum \<Rightarrow> jsnum" where
  "jsdiv (Num a) (Num b) =
     (if b = 0 then (if a = 0 then NaN else if 0 < a then PosInf else NegInf)
      else Num (a / b))"
| "jsdiv NaN y = NaN"
| "jsdiv x NaN = NaN"
| "jsdiv (Num a) y = Num 0"
| "jsdiv x (Num b) = (if js_positive x = (0 \<le> b) then PosInf else NegInf)"
| "jsdiv x y = NaN"

text \<open>
  \<open>vec[i]\<close> on a number array: the element, or \<open>undefined\<close> past the end, which
  arithmetic converts to \<open>NaN\<close>.
\<close>

definition js_at :: "real list \<Rightarrow> nat \<Rightarrow> jsnum" where
  "js_at vec i = (if i < length vec then Num (vec ! i) else NaN)"

section \<open>Vector math\<close>

text \<open>
  \<open>cosineSimilarity\<close>: the loop runs over the indices of \<open>vecA\<close> only and reads
  \<open>vecB\<close> at the same index; the three accumulators start at 0.
\<close>

function cosine_loop ::
  "real list \<Rightarrow> real list \<Rightarrow> nat \<Rightarrow> jsnum \<times> jsnum \<times> jsnum \<Rightarrow> jsnum \<times> jsnum \<times> jsnum" where
  "cosine_loop vecA vecB i (dotProduct, normA, normB) =
     (if i < length vecA then
        cosine_loop vecA vecB (i + 1)
          (jsadd dotProduct (jsmul (js_at vecA i) (js_at vecB i)),
           jsadd normA (jsmul (js_at vecA i) (js_at vecA i)),
           jsadd normB (jsmul (js_at vecB i) (js_at vecB i)))
      else (dotProduct, normA, normB))"
  by pat_completeness auto
termination
  by (relation "measure (\<lambda>(vecA, vecB, i, acc). length vecA - i)") auto

definition cosineSimilarity :: "real list \<Rightarrow> real list \<Rightarrow> jsnum" where
  "cosineSimilarity vecA vecB =
     (case cosine_loop vecA vecB 0 (Num 0, Num 0, Num 0) of
        (dotProduct, normA, normB) \<Rightarrow>
          jsdiv dotProduct (jsmul (jssqrt normA) (jssqrt normB)))"

section \<open>Data model\<close>

text \<open>
  The interfaces of the type module. Field names that Isabelle cannot reuse across
  records (or that clash with a keyword, a type or a HOL constant) carry a prefix or a
  plural: \<open>id\<close> is \<open>item_id\<close>, \<open>text\<close> is \<open>chunk_text\<close>, \<open>keywords\<close> is
  \<open>item_keywords\<close>, \<open>work_experience\<close> is \<open>work_experiences\<close>. The top-level
  collections of the parsed resume are optional, because \<open>generateRichCorpus\<close> tests
  each of them for presence before iterating; the arrays nested in an entry are iterated
  without a test and are taken at their declared type.
\<close>

record bullet_point =
  raw_text :: string

record work_experience =
  company_name :: string
  role_title :: string
  dates_employed :: string
  location :: string
  bullet_points :: "bullet_point list"

record project =
  project_name :: string
  proj_role_title :: string
  technologies_used :: "string list"
  proj_bullet_points :: "bullet_point list"

record education =
  institution_name :: string
  degree_obtained :: string
  graduation_date :: string
  achievements :: "string list"

record skill_group =
  category_name :: string
  items :: "string list"

record contact_info =
  full_name :: string
  email :: string
  phone :: string
  linkedin_url :: string
  github_url :: string
  website_url :: string
  contact_location :: string

record parsed_resume =
  contact :: contact_info
  professional_summary :: "string option"
  work_experiences :: "work_experience list option"
  projects :: "project list option"
  educations :: "education list option"
  skills :: "skill_group list option"
  certifications :: "string list option"

text \<open>\<open>Record<string, any>\<close>: the values the chunker stores are strings and string arrays.\<close>

datatype metaval = MStr string | MList "string list"

type_synonym metadata = "(string \<times> metaval) list"

record corpus_chunk =
  chunk_text :: string
  chunk_metadata :: metadata

record enriched_corpus_item =
  item_id :: string
  content :: string
  item_keywords :: "string list"
  skills_implied :: "string list"
  category :: string
  raw_source :: string
  item_metadata :: metadata
  embedding :: "real list option"

section \<open>String helpers\<close>

abbreviation nl :: string where
  "nl \<equiv> [CHR 0x0A]"

text \<open>\<open>Array.prototype.join\<close>.\<close>

fun js_join :: "string \<Rightarrow> string list \<Rightarrow> string" where
  "js_join sep [] = []"
| "js_join sep [x] = x"
| "js_join sep (x # y # ys) = x @ sep @ js_join sep (y # ys)"

text \<open>\<open>s || d\<close> on strings: the empty string is falsy.\<close>

definition str_or :: "string \<Rightarrow> string \<Rightarrow> string" where
  "str_or s d = (if s = [] then d else s)"

text \<open>\<open>toUpperCase\<close>, on the ASCII letters (other characters are left alone).\<close>

definition upper_char :: "char \<Rightarrow> char" where
  "upper_char c =
     (if 97 \<le> (of_char c :: nat) \<and> (of_char c :: nat) \<le> 122
      then char_of ((of_char c :: nat) - 32) else c)"

definition toUpperCase :: "string \<Rightarrow> string" where
  "toUpperCase s = map upper_char s"

section \<open>Chunker\<close>

definition work_chunks :: "work_experience \<Rightarrow> corpus_chunk list" where
  "work_chunks job =
     (let contextHeader = ''ROLE: '' @ role_title job @ '' | COMPANY: '' @ company_name job
            @ '' | LOCATION: '' @ location job @ '' | DATES: '' @ dates_employed job
      in map (\<lambda>bullet.
            \<lparr>chunk_text = contextHeader @ nl @ ''ACHIEVEMENT: '' @ raw_text bullet,
             chunk_metadata =
               [(''type'', MStr ''work_experience''),
                (''company'', MStr (company_name job)),
                (''role'', MStr (role_title job)),
                (''id'', MStr (company_name job @ ''_'' @ role_title job))]\<rparr>)
          (bullet_points job))"

definition project_chunks :: "project \<Rightarrow> corpus_chunk list" where
  "project_chunks proj =
     (let techStack = js_join '', '' (technologies_used proj);
          contextHeader = ''PROJECT: '' @ project_name proj @ '' | ROLE: '' @ proj_role_title proj
            @ '' | TECH STACK: '' @ techStack
      in map (\<lambda>bullet.
            \<lparr>chunk_text = contextHeader @ nl @ ''DETAIL: '' @ raw_text bullet,
             chunk_metadata =
               [(''type'', MStr ''project''),
                (''technologies'', MList (technologies_used proj))]\<rparr>)
          (proj_bullet_points proj))"

definition education_chunks :: "education \<Rightarrow> corpus_chunk list" where
  "education_chunks edu =
     (let contextHeader = ''category: EDUCATION | degree: '' @ degree_obtained edu
            @ '' | institution: '' @ institution_name edu @ '' | year: '' @ graduation_date edu
      in \<lparr>chunk_text = contextHeader @ nl @ ''SUMMARY: Graduated with '' @ degree_obtained edu @ ''.'',
          chunk_metadata = [(''type'', MStr ''education''), (''subtype'', MStr ''degree'')]\<rparr>
         # map (\<lambda>achievement.
            \<lparr>chunk_text = contextHeader @ nl @ ''ACHIEVEMENT: '' @ achievement,
             chunk_metadata = [(''type'', MStr ''education''), (''subtype'', MStr ''achievement'')]\<rparr>)
          (achievements edu))"

definition skill_chunk :: "skill_group \<Rightarrow> corpus_chunk" where
  "skill_chunk skillGroup =
     (let category = str_or (category_name skillGroup) ''General'';
          skillsList = js_join '', '' (items skillGroup)
      in \<lparr>chunk_text = ''category: SKILLS | group: '' @ category @ nl @ ''LIST: '' @ skillsList,
          chunk_metadata = [(''type'', MStr ''skill_group''), (''category'', MStr category)]\<rparr>)"

definition certification_chunk :: "string \<Rightarrow> corpus_chunk" where
  "certification_chunk cert =
     \<lparr>chunk_text = ''category: CERTIFICATION'' @ nl @ ''TITLE: '' @ cert,
      chunk_metadata = [(''type'', MStr ''certification'')]\<rparr>"

definition summary_chunk :: "string \<Rightarrow> corpus_chunk" where
  "summary_chunk s =
     \<lparr>chunk_text = ''category: PROFESSIONAL SUMMARY'' @ nl @ ''TEXT: '' @ s,
      chunk_metadata = [(''type'', MStr ''summary'')]\<rparr>"

text \<open>
  \<open>generateRichCorpus\<close>: six guarded sections push onto one array, in this order. A
  collection that is absent skips its section; the summary is skipped when it is absent
  or the empty string.
\<close>

definition generateRichCorpus :: "parsed_resume \<Rightarrow> corpus_chunk list" where
  "generateRichCorpus resumeJson =
     (case work_experiences resumeJson of None \<Rightarrow> []
      | Some jobs \<Rightarrow> concat (map work_chunks jobs))
     @ (case projects resumeJson of None \<Rightarrow> []
        | Some projs \<Rightarrow> concat (map project_chunks projs))
     @ (case educations resumeJson of None \<Rightarrow> []
        | Some edus \<Rightarrow> concat (map education_chunks edus))
     @ (case skills resumeJson of None \<Rightarrow> []
        | Some groups \<Rightarrow> map skill_chunk groups)
     @ (case certifications resumeJson of None \<Rightarrow> []
        | Some certs \<Rightarrow> map certification_chunk certs)
     @ (case professional_summary resumeJson of None \<Rightarrow> []
        | Some s \<Rightarrow> if s = [] then [] else [summary_chunk s])"

text \<open>The \<open>type\<close> and \<open>subtype\<close> tags of a chunk, and what a document holds.\<close>

definition chunk_type :: "corpus_chunk \<Rightarrow> metaval option" where
  "chunk_type c = map_of (chunk_metadata c) ''type''"

definition chunk_subtype :: "corpus_chunk \<Rightarrow> metaval option" where
  "chunk_subtype c = map_of (chunk_metadata c) ''subtype''"

definition present :: "'a list option \<Rightarrow> 'a list" where
  "present xs = (case xs of None \<Rightarrow> [] | Some ys \<Rightarrow> ys)"

section \<open>External services\<close>

text \<open>
  The text-generation and embedding services are outside the module; the model takes
  their responses as parameters. A generation call either rejects (network error,
  timeout), or returns a response whose \<open>text\<close> is missing or empty, or returns a text
  that \<open>JSON.parse\<close> rejects, or returns a text that decodes to a value of the
  requested schema. Prompts and token-usage reporting do not influence any result and
  are left out.
\<close>

datatype 'a generation = CallFails | NoText | BadJson | Json 'a

datatype js_error = ServiceError | SyntaxError | TypeError

text \<open>
  The decoded enrichment object. The schema requires all four fields; the code guards
  the two arrays with \<open>|| []\<close>, so they are optional here.
\<close>

record enrichment_data =
  fused_sentence :: string
  data_keywords :: "string list option"
  data_skills_implied :: "string list option"
  data_category :: string

text \<open>
  An embedding call rejects, or returns a response whose \<open>embeddings\<close> array may be
  missing and whose entries may lack \<open>values\<close>.
\<close>

datatype embedding_response = EmbedFails | EmbedResponse "real list option list option"

section \<open>Enricher\<close>

text \<open>
  \<open>enrichItem\<close>: the body of the \<open>try\<close> block, with a throw as \<open>Inl\<close> and the
  \<open>return null\<close> as \<open>Inr None\<close>; then the function with its \<open>catch\<close>. The
  argument \<open>rid\<close> is the string that \<open>Math.random().toString(36).substring(7)\<close>
  yields for this item.
\<close>

definition enrichItem_try ::
  "corpus_chunk \<Rightarrow> string \<Rightarrow> enrichment_data generation \<Rightarrow> js_error + enriched_corpus_item option" where
  "enrichItem_try item rid response =
     (case response of
        CallFails \<Rightarrow> Inl ServiceError
      | NoText \<Rightarrow> Inr None
      | BadJson \<Rightarrow> Inl SyntaxError
      | Json data \<Rightarrow>
          Inr (Some \<lparr>item_id = rid,
                     content = fused_sentence data,
                     item_keywords = (case data_keywords data of None \<Rightarrow> [] | Some ks \<Rightarrow> ks),
                     skills_implied = (case data_skills_implied data of None \<Rightarrow> [] | Some ss \<Rightarrow> ss),
                     category = data_category data,
                     raw_source = chunk_text item,
                     item_metadata = chunk_metadata item,
                     embedding = None\<rparr>))"

definition fallback_item :: "corpus_chunk \<Rightarrow> string \<Rightarrow> enriched_corpus_item" where
  "fallback_item item rid =
     \<lparr>item_id = rid,
      content = chunk_text item,
      item_keywords = [],
      skills_implied = [],
      category = ''unknown'',
      raw_source = chunk_text item,
      item_metadata = chunk_metadata item,
      embedding = None\<rparr>"

definition enrichItem ::
  "corpus_chunk \<Rightarrow> string \<Rightarrow> enrichment_data generation \<Rightarrow> enriched_corpus_item option" where
  "enrichItem item rid response =
     (case enrichItem_try item rid response of
        Inl e \<Rightarrow> Some (fallback_item item rid)
      | Inr res \<Rightarrow> res)"

text \<open>\<open>xs.slice(start, stop)\<close> for non-negative integer indices.\<close>

definition js_slice :: "nat \<Rightarrow> nat \<Rightarrow> 'a list \<Rightarrow> 'a list" where
  "js_slice start stop xs = take (stop - start) (drop start xs)"

text \<open>
  The enrichment phase of \<open>enrichAndEmbedCorpus\<close>. The calls of one batch run
  concurrently and \<open>Promise.all\<close> returns their results in batch order; \<open>gen k\<close> and
  \<open>rid k\<close> are the service's response and the random id for the chunk at index \<open>k\<close>.
  A \<open>null\<close> result is not pushed. The progress callback observes the loop and does not
  influence it; it is left out, here and in the embedding phase.
\<close>

definition BATCH_SIZE :: nat where
  "BATCH_SIZE = 5"

function enrich_batches ::
  "corpus_chunk list \<Rightarrow> (nat \<Rightarrow> string) \<Rightarrow> (nat \<Rightarrow> enrichment_data generation) \<Rightarrow> nat
   \<Rightarrow> enriched_corpus_item list \<Rightarrow> enriched_corpus_item list" where
  "enrich_batches corpus rid gen i enrichedItems =
     (if i < length corpus then
        (let batch = js_slice i (i + BATCH_SIZE) corpus;
             results = map (\<lambda>(k, item). enrichItem item (rid (i + k)) (gen (i + k)))
                         (enumerate 0 batch)
         in enrich_batches corpus rid gen (i + BATCH_SIZE)
              (enrichedItems @ List.map_filter (\<lambda>res. res) results))
      else enrichedItems)"
  by pat_completeness auto
termination
  by (relation "measure (\<lambda>(corpus, rid, gen, i, acc). length corpus - i)")
     (auto simp: BATCH_SIZE_def)

section \<open>Vectorizer\<close>

text \<open>
  The \<open>forEach\<close> over one response: the vector at index \<open>idx\<close> is stored into
  \<open>enrichedItems[i + idx]\<close>; \<open>pos\<close> is \<open>i + idx\<close>. Writing a property of the
  \<open>undefined\<close> read past the end of the array throws, which leaves the \<open>forEach\<close>
  for the enclosing \<open>catch\<close>; the assignments made before it stay.
\<close>

fun assign_embeddings ::
  "nat \<Rightarrow> real list option list \<Rightarrow> enriched_corpus_item list \<Rightarrow> enriched_corpus_item list" where
  "assign_embeddings pos [] enrichedItems = enrichedItems"
| "assign_embeddings pos (emb # embs) enrichedItems =
     (case emb of
        None \<Rightarrow> assign_embeddings (pos + 1) embs enrichedItems
      | Some vals \<Rightarrow>
          if pos < length enrichedItems then
            assign_embeddings (pos + 1) embs
              (enrichedItems[pos := (enrichedItems ! pos)\<lparr>embedding := Some vals\<rparr>])
          else enrichedItems)"

definition EMBED_BATCH_SIZE :: nat where
  "EMBED_BATCH_SIZE = 20"

text \<open>
  The embedding phase; \<open>embedSvc i batchTexts\<close> is the service's response to the call made
  for the batch that starts at index \<open>i\<close>.
\<close>

function embed_batches ::
  "string list \<Rightarrow> (nat \<Rightarrow> string list \<Rightarrow> embedding_response) \<Rightarrow> nat
   \<Rightarrow> enriched_corpus_item list \<Rightarrow> enriched_corpus_item list" where
  "embed_batches textsToEmbed embedSvc i enrichedItems =
     (if i < length textsToEmbed then
        (let batchTexts = js_slice i (i + EMBED_BATCH_SIZE) textsToEmbed
         in embed_batches textsToEmbed embedSvc (i + EMBED_BATCH_SIZE)
              (case embedSvc i batchTexts of
                 EmbedFails \<Rightarrow> enrichedItems
               | EmbedResponse None \<Rightarrow> enrichedItems
               | EmbedResponse (Some embs) \<Rightarrow> assign_embeddings i embs enrichedItems))
      else enrichedItems)"
  by pat_completeness auto
termination
  by (relation "measure (\<lambda>(texts, embedSvc, i, acc). length texts - i)")
     (auto simp: EMBED_BATCH_SIZE_def)

definition embed_phase ::
  "(nat \<Rightarrow> string list \<Rightarrow> embedding_response) \<Rightarrow> enriched_corpus_item list
   \<Rightarrow> enriched_corpus_item list" where
  "embed_phase embedSvc enrichedItems =
     embed_batches (map content enrichedItems) embedSvc 0 enrichedItems"

definition vector_store_of :: "enriched_corpus_item list \<Rightarrow> enriched_corpus_item list" where
  "vector_store_of enrichedItems = filter (\<lambda>item. embedding item \<noteq> None) enrichedItems"

definition enrichAndEmbedCorpus ::
  "corpus_chunk list \<Rightarrow> (nat \<Rightarrow> string) \<Rightarrow> (nat \<Rightarrow> enrichment_data generation)
   \<Rightarrow> (nat \<Rightarrow> string list \<Rightarrow> embedding_response) \<Rightarrow> enriched_corpus_item list" where
  "enrichAndEmbedCorpus corpus rid gen embedSvc =
     vector_store_of (embed_phase embedSvc (enrich_batches corpus rid gen 0 []))"

section \<open>Requirement extractor\<close>

text \<open>
  \<open>extractRequirementsFromJD\<close>: \<open>jdText\<close> and \<open>requirementCount\<close> are interpolated
  into the prompt and used nowhere else. The \<open>try\<close> body first, then the function with
  its \<open>catch\<close>, which returns the empty array.
\<close>

definition extractRequirementsFromJD_try ::
  "string \<Rightarrow> int \<Rightarrow> string list generation \<Rightarrow> js_error + string list" where
  "extractRequirementsFromJD_try jdText requirementCount response =
     (case response of
        CallFails \<Rightarrow> Inl ServiceError
      | NoText \<Rightarrow> Inr []
      | BadJson \<Rightarrow> Inl SyntaxError
      | Json reqs \<Rightarrow> Inr reqs)"

definition extractRequirementsFromJD ::
  "string \<Rightarrow> int \<Rightarrow> string list generation \<Rightarrow> string list" where
  "extractRequirementsFromJD jdText requirementCount response =
     (case extractRequirementsFromJD_try jdText requirementCount response of
        Inl e \<Rightarrow> []
      | Inr reqs \<Rightarrow> reqs)"

section \<open>Retriever\<close>

text \<open>
  The options object; a field that is absent takes the default of the destructuring. The
  numeric options are counts and are taken to be integers.
\<close>

record rag_options =
  includeSummary :: "bool option"
  includeEducation :: "bool option"
  requirementCount :: "int option"
  reqMatchCount :: "int option"
  finalContextLimit :: "int option"

definition or_default :: "'a option \<Rightarrow> 'a \<Rightarrow> 'a" where
  "or_default v d = (case v of None \<Rightarrow> d | Some x \<Rightarrow> x)"

text \<open>
  A \<open>Set<string>\<close> as the list of its members in insertion order: \<open>add\<close>, \<open>has\<close>,
  \<open>size\<close>.
\<close>

definition set_add :: "string \<Rightarrow> string list \<Rightarrow> string list" where
  "set_add x s = (if x \<in> set s then s else s @ [x])"

definition set_has :: "string list \<Rightarrow> string \<Rightarrow> bool" where
  "set_has s x = (x \<in> set s)"

definition set_size :: "string list \<Rightarrow> nat" where
  "set_size s = length s"

definition has_type :: "string \<Rightarrow> enriched_corpus_item \<Rightarrow> bool" where
  "has_type t d = (map_of (item_metadata d) ''type'' = Some (MStr t))"

text \<open>
  Step 1 of \<open>getRagContext\<close>: the ids of the summary and education items. (The map
  \<open>docsById\<close> that the function also builds is never read.)
\<close>

definition fixed_ids :: "bool \<Rightarrow> bool \<Rightarrow> enriched_corpus_item list \<Rightarrow> string list" where
  "fixed_ids inclSummary inclEducation vectorStore =
     (let finalIds = [];
          finalIds = (if inclSummary
                      then foldl (\<lambda>s d. set_add (item_id d) s) finalIds
                             (filter (has_type ''summary'') vectorStore)
                      else finalIds);
          finalIds = (if inclEducation
                      then foldl (\<lambda>s d. set_add (item_id d) s) finalIds
                             (filter (has_type ''education'') vectorStore)
                      else finalIds)
      in finalIds)"

text \<open>Step 2: the requirement strings, with the substitute for an empty extraction.\<close>

definition rag_requirements :: "string \<Rightarrow> int \<Rightarrow> string list generation \<Rightarrow> string list" where
  "rag_requirements jdText reqCount response =
     (let requirements = extractRequirementsFromJD jdText reqCount response
      in if length requirements = 0 then [take 1000 jdText] else requirements)"

text \<open>Step 3: one embedding call for all requirements; a missing vector becomes \<open>[]\<close>.\<close>

definition req_embeddings :: "embedding_response \<Rightarrow> real list list" where
  "req_embeddings resp =
     (case resp of
        EmbedFails \<Rightarrow> []
      | EmbedResponse None \<Rightarrow> []
      | EmbedResponse (Some embs) \<Rightarrow> map (\<lambda>e. case e of None \<Rightarrow> [] | Some vals \<Rightarrow> vals) embs)"

text \<open>
  \<open>Array.prototype.sort\<close> with a comparator. The sort is stable, and \<open>a\<close> is moved
  behind \<open>b\<close> exactly when the comparator's value is greater than 0 (a \<open>NaN\<close> value
  counts as 0). For a consistent comparator the result is the stable sort, which this
  insertion sort computes; for an inconsistent one (scores that are \<open>NaN\<close>) the
  language leaves the order to the implementation, and this is one such order.
\<close>

fun js_insert :: "('a \<Rightarrow> 'a \<Rightarrow> jsnum) \<Rightarrow> 'a \<Rightarrow> 'a list \<Rightarrow> 'a list" where
  "js_insert cmp x [] = [x]"
| "js_insert cmp x (y # ys) =
     (if js_positive (cmp x y) then y # js_insert cmp x ys else x # y # ys)"

fun js_sort :: "('a \<Rightarrow> 'a \<Rightarrow> jsnum) \<Rightarrow> 'a list \<Rightarrow> 'a list" where
  "js_sort cmp [] = []"
| "js_sort cmp (x # xs) = js_insert cmp x (js_sort cmp xs)"

text \<open>\<open>xs.slice(0, k)\<close> for an integer \<open>k\<close>: a negative \<open>k\<close> counts from the end.\<close>

definition js_slice_to :: "int \<Rightarrow> 'a list \<Rightarrow> 'a list" where
  "js_slice_to k xs =
     (if k < 0 then take (nat (int (length xs) + k)) xs else take (nat k) xs)"

type_synonym score_entry = "string \<times> jsnum"

definition by_score_desc :: "score_entry \<Rightarrow> score_entry \<Rightarrow> jsnum" where
  "by_score_desc a b = jssub (snd b) (snd a)"

definition item_score :: "real list \<Rightarrow> enriched_corpus_item \<Rightarrow> jsnum" where
  "item_score reqVec item =
     (case embedding item of Some e \<Rightarrow> cosineSimilarity reqVec e | None \<Rightarrow> Num (- 1))"

definition req_hits :: "int \<Rightarrow> enriched_corpus_item list \<Rightarrow> real list \<Rightarrow> score_entry list" where
  "req_hits matchCount vectorStore reqVec =
     (let scores = map (\<lambda>item. (item_id item, item_score reqVec item)) vectorStore;
          scores = js_sort by_score_desc scores
      in js_slice_to matchCount scores)"

text \<open>
  \<open>chunkScores\<close> is a \<open>Map<string, number>\<close>, kept as the list of its entries in
  insertion order (\<open>set\<close> on a present key keeps the key's place).
\<close>

definition add_hit :: "score_entry list \<Rightarrow> score_entry \<Rightarrow> score_entry list" where
  "add_hit chunkScores hit =
     (let current = (case map_of chunkScores (fst hit) of
                       None \<Rightarrow> Num 0
                     | Some c \<Rightarrow> if js_truthy c then c else Num 0)
      in AList.update (fst hit) (jsadd current (snd hit)) chunkScores)"

definition chunk_scores ::
  "int \<Rightarrow> enriched_corpus_item list \<Rightarrow> real list list \<Rightarrow> score_entry list" where
  "chunk_scores matchCount vectorStore reqEmbeddings =
     foldl (\<lambda>chunkScores reqVec. foldl add_hit chunkScores (req_hits matchCount vectorStore reqVec))
       [] reqEmbeddings"

definition sorted_ids :: "score_entry list \<Rightarrow> string list" where
  "sorted_ids chunkScores = map fst (js_sort by_score_desc chunkScores)"

text \<open>The final loop; \<open>bound\<close> is \<open>finalContextLimit + initialFixedCount\<close>.\<close>

fun add_ranked :: "int \<Rightarrow> string list \<Rightarrow> string list \<Rightarrow> string list" where
  "add_ranked bound [] finalIds = finalIds"
| "add_ranked bound (uid # uids) finalIds =
     (if bound \<le> int (set_size finalIds) then finalIds
      else add_ranked bound uids (set_add uid finalIds))"

definition final_ids ::
  "string \<Rightarrow> enriched_corpus_item list \<Rightarrow> rag_options \<Rightarrow> string list generation
   \<Rightarrow> (string list \<Rightarrow> embedding_response) \<Rightarrow> string list" where
  "final_ids jdText vectorStore options extraction embedSvc =
     (let finalIds = fixed_ids (or_default (includeSummary options) True)
                       (or_default (includeEducation options) True) vectorStore;
          requirements = rag_requirements jdText (or_default (requirementCount options) 6) extraction;
          reqEmbeddings = req_embeddings (embedSvc requirements);
          chunkScores = chunk_scores (or_default (reqMatchCount options) 6) vectorStore reqEmbeddings;
          sortedIds = sorted_ids chunkScores;
          initialFixedCount = set_size finalIds
      in add_ranked (or_default (finalContextLimit options) 15 + int initialFixedCount)
           sortedIds finalIds)"

definition render_block :: "enriched_corpus_item \<Rightarrow> string" where
  "render_block doc =
     (let cat = toUpperCase (str_or (category doc) ''General'');
          metaTags = js_join '', '' (take 8 (item_keywords doc @ skills_implied doc))
      in ''['' @ cat @ ''] '' @ content doc @ nl @ ''(Tags: '' @ metaTags @ '')'')"

text \<open>The documents that are rendered, in store order, and their blocks.\<close>

definition rendered_docs ::
  "string \<Rightarrow> enriched_corpus_item list \<Rightarrow> rag_options \<Rightarrow> string list generation
   \<Rightarrow> (string list \<Rightarrow> embedding_response) \<Rightarrow> enriched_corpus_item list" where
  "rendered_docs jdText vectorStore options extraction embedSvc =
     filter (\<lambda>doc. set_has (final_ids jdText vectorStore options extraction embedSvc) (item_id doc))
       vectorStore"

definition contextBlocks ::
  "string \<Rightarrow> enriched_corpus_item list \<Rightarrow> rag_options \<Rightarrow> string list generation
   \<Rightarrow> (string list \<Rightarrow> embedding_response) \<Rightarrow> string list" where
  "contextBlocks jdText vectorStore options extraction embedSvc =
     map render_block (rendered_docs jdText vectorStore options extraction embedSvc)"

definition getRagContext ::
  "string \<Rightarrow> enriched_corpus_item list \<Rightarrow> rag_options \<Rightarrow> string list generation
   \<Rightarrow> (string list \<Rightarrow> embedding_response) \<Rightarrow> string" where
  "getRagContext jdText vectorStore options extraction embedSvc =
     js_join (nl @ nl) (contextBlocks jdText vectorStore options extraction embedSvc)"

section \<open>Notions used in the statements\<close>

text \<open>
  The number of chunks with a given \<open>type\<close> tag and \<open>subtype\<close> tag (\<open>None\<close>: no
  \<open>subtype\<close> key), and the summaries a document holds: one when the summary is present
  and not the empty string.
\<close>

definition count_kind :: "string \<Rightarrow> string option \<Rightarrow> corpus_chunk list \<Rightarrow> nat" where
  "count_kind t st cs =
     length (filter (\<lambda>c. chunk_type c = Some (MStr t) \<and> chunk_subtype c = map_option MStr st) cs)"

definition summary_count :: "string option \<Rightarrow> nat" where
  "summary_count s = (case s of None \<Rightarrow> 0 | Some t \<Rightarrow> if t = [] then 0 else 1)"

definition summary_list :: "string option \<Rightarrow> string list" where
  "summary_list s = (case s of None \<Rightarrow> [] | Some t \<Rightarrow> if t = [] then [] else [t])"

text \<open>
  The vector that the embedding service returned at the batch-relative position of the
  item at index \<open>k\<close>, if any; \<open>attach\<close> stores it. A service is well sized for a
  list of texts when no response carries more entries than its batch has texts.
\<close>

definition returned_vector ::
  "(nat \<Rightarrow> string list \<Rightarrow> embedding_response) \<Rightarrow> string list \<Rightarrow> nat \<Rightarrow> real list option" where
  "returned_vector embedSvc texts k =
     (let i = (k div EMBED_BATCH_SIZE) * EMBED_BATCH_SIZE
      in case embedSvc i (js_slice i (i + EMBED_BATCH_SIZE) texts) of
           EmbedFails \<Rightarrow> None
         | EmbedResponse None \<Rightarrow> None
         | EmbedResponse (Some embs) \<Rightarrow> (if k - i < length embs then embs ! (k - i) else None))"

definition attach :: "real list option \<Rightarrow> enriched_corpus_item \<Rightarrow> enriched_corpus_item" where
  "attach v item = (case v of None \<Rightarrow> item | Some vals \<Rightarrow> item\<lparr>embedding := Some vals\<rparr>)"

definition batch_sized :: "(nat \<Rightarrow> string list \<Rightarrow> embedding_response) \<Rightarrow> string list \<Rightarrow> nat \<Rightarrow> bool" where
  "batch_sized embedSvc texts i =
     (case embedSvc i (js_slice i (i + EMBED_BATCH_SIZE) texts) of
        EmbedResponse (Some embs) \<Rightarrow>
          length embs \<le> length (js_slice i (i + EMBED_BATCH_SIZE) texts)
      | _ \<Rightarrow> True)"

definition well_sized :: "(nat \<Rightarrow> string list \<Rightarrow> embedding_response) \<Rightarrow> string list \<Rightarrow> bool" where
  "well_sized embedSvc texts =
     list_all (\<lambda>i. i mod EMBED_BATCH_SIZE = 0 \<longrightarrow> batch_sized embedSvc texts i)
       [0..<length texts]"

text \<open>The fixed inclusions: the items selected by type in step 1 of the retriever.\<close>

definition is_fixed :: "bool \<Rightarrow> bool \<Rightarrow> enriched_corpus_item \<Rightarrow> bool" where
  "is_fixed inclSummary inclEducation d =
     ((inclSummary \<and> has_type ''summary'' d) \<or> (inclEducation \<and> has_type ''education'' d))"

definition fixed_items :: "rag_options \<Rightarrow> enriched_corpus_item list \<Rightarrow> enriched_corpus_item list" where
  "fixed_items options vectorStore =
     filter (is_fixed (or_default (includeSummary options) True)
                      (or_default (includeEducation options) True)) vectorStore"

text \<open>
  The notions of the score aggregation. A score is numeric when it is a number, not
  \<open>NaN\<close> or an infinity. \<open>all_scores\<close> are the score entries of all store items for
  one requirement vector, \<open>hit_ids\<close> the ids in its top list. \<open>score_of_id\<close> is the
  similarity of the item that carries an id, and \<open>total_score\<close> follows the words of
  the specification: the sum, over all requirements in whose top list the id appears, of
  the id's similarity to that requirement.
\<close>

definition the_num :: "jsnum \<Rightarrow> real" where
  "the_num v = (case v of Num x \<Rightarrow> x | _ \<Rightarrow> 0)"

definition is_num :: "jsnum \<Rightarrow> bool" where
  "is_num v = (case v of Num x \<Rightarrow> True | _ \<Rightarrow> False)"

definition numeric_scores :: "enriched_corpus_item list \<Rightarrow> real list list \<Rightarrow> bool" where
  "numeric_scores vectorStore reqEmbeddings =
     list_all (\<lambda>reqVec. list_all (\<lambda>item. is_num (item_score reqVec item)) vectorStore) reqEmbeddings"

definition all_scores :: "enriched_corpus_item list \<Rightarrow> real list \<Rightarrow> score_entry list" where
  "all_scores vectorStore reqVec = map (\<lambda>item. (item_id item, item_score reqVec item)) vectorStore"

definition hit_ids :: "int \<Rightarrow> enriched_corpus_item list \<Rightarrow> real list \<Rightarrow> string list" where
  "hit_ids matchCount vectorStore reqVec = map fst (req_hits matchCount vectorStore reqVec)"

definition score_of_id :: "enriched_corpus_item list \<Rightarrow> real list \<Rightarrow> string \<Rightarrow> real" where
  "score_of_id vectorStore reqVec i =
     (case find (\<lambda>item. item_id item = i) vectorStore of
        None \<Rightarrow> 0
      | Some item \<Rightarrow> the_num (item_score reqVec item))"

definition total_score ::
  "int \<Rightarrow> enriched_corpus_item list \<Rightarrow> real list list \<Rightarrow> string \<Rightarrow> real" where
  "total_score matchCount vectorStore reqEmbeddings i =
     sum_list (map (\<lambda>reqVec. if i \<in> set (hit_ids matchCount vectorStore reqVec)
                              then score_of_id vectorStore reqVec i else 0) reqEmbeddings)"

text \<open>The value stored for a key (0 when absent), and maps that hold numbers only.\<close>

definition val_of :: "score_entry list \<Rightarrow> string \<Rightarrow> real" where
  "val_of m i = (case map_of m i of None \<Rightarrow> 0 | Some v \<Rightarrow> the_num v)"

definition numeric_map :: "score_entry list \<Rightarrow> bool" where
  "numeric_map m = (\<forall>e \<in> set m. is_num (snd e))"

abbreviation by_neg_score :: "score_entry \<Rightarrow> real" where
  "by_neg_score \<equiv> (\<lambda>e. - the_num (snd e))"

text \<open>An embedding service that is never reached with an empty list of texts.\<close>

definition guarded_service :: "(string list \<Rightarrow> embedding_response) \<Rightarrow> string list \<Rightarrow> embedding_response" where
  "guarded_service embedSvc reqs = (if reqs = [] then EmbedFails else embedSvc reqs)"


section \<open>Sample inputs\<close>

text \<open>Concrete chunks and stub services, used to instantiate the theorems below.\<close>

definition sample_chunk :: corpus_chunk where
  "sample_chunk =
     \<lparr>chunk_text = ''ROLE: Engineer'', chunk_metadata = [(''type'', MStr ''work_experience'')]\<rparr>"

definition mk_item :: "string \<Rightarrow> string \<Rightarrow> real list option \<Rightarrow> enriched_corpus_item" where
  "mk_item i t v =
     \<lparr>item_id = i, content = ''I built it.'', item_keywords = [''SQL''], skills_implied = [],
      category = t, raw_source = ''DETAIL: built it'', item_metadata = [(''type'', MStr t)],
      embedding = v\<rparr>"

definition const_rid :: "nat \<Rightarrow> string" where
  "const_rid k = ''r''"

definition gen_no_text :: "nat \<Rightarrow> enrichment_data generation" where
  "gen_no_text k = NoText"

definition gen_rejects :: "nat \<Rightarrow> enrichment_data generation" where
  "gen_rejects k = CallFails"

definition sample_resume :: parsed_resume where
  "sample_resume =
     \<lparr>contact = \<lparr>full_name = ''A'', email = '''', phone = '''', linkedin_url = '''', github_url = '''',
                 website_url = '''', contact_location = ''''\<rparr>,
      professional_summary = Some ''Engineer with ten years of experience.'',
      work_experiences = Some [\<lparr>company_name = ''Acme'', role_title = ''Engineer'',
                                dates_employed = ''2020'', location = ''Remote'',
                                bullet_points = [\<lparr>raw_text = ''Reduced latency by 40%''\<rparr>]\<rparr>],
      projects = None,
      educations = Some [\<lparr>institution_name = ''MIT'', degree_obtained = ''BSc'',
                          graduation_date = ''2015'', achievements = [''Honours'', ''Prize'']\<rparr>],
      skills = Some [],
      certifications = Some [''AWS'']\<rparr>"

definition svc_unit :: "string list \<Rightarrow> embedding_response" where
  "svc_unit reqs = EmbedResponse (Some (map (\<lambda>r. Some [1]) reqs))"

definition svc_down :: "string list \<Rightarrow> embedding_response" where
  "svc_down reqs = EmbedFails"

definition limit_options :: "int \<Rightarrow> rag_options" where
  "limit_options n =
     \<lparr>includeSummary = None, includeEducation = None, requirementCount = None,
      reqMatchCount = None, finalContextLimit = Some n\<rparr>"

definition default_options :: rag_options where
  "default_options =
     \<lparr>includeSummary = None, includeEducation = None, requirementCount = None,
      reqMatchCount = None, finalContextLimit = None\<rparr>"

definition two_store :: "enriched_corpus_item list" where
  "two_store = [mk_item ''s1'' ''summary'' (Some [1, 0]), mk_item ''p1'' ''project'' (Some [1, 0])]"

definition dup_store :: "enriched_corpus_item list" where
  "dup_store = [mk_item ''a'' ''summary'' (Some [1, 0]), mk_item ''a'' ''project'' (Some [1, 0])]"

definition svc_first_only :: "nat \<Rightarrow> string list \<Rightarrow> embedding_response" where
  "svc_first_only i texts = EmbedResponse (Some [Some [1, 0], None])"

definition svc_too_long :: "nat \<Rightarrow> string list \<Rightarrow> embedding_response" where
  "svc_too_long i texts =
     (if i = 0 then EmbedResponse (Some (replicate 21 (Some [1]))) else EmbedFails)"

definition many_items :: "enriched_corpus_item list" where
  "many_items = replicate 21 (mk_item ''a'' ''project'' None)"

definition pair_items :: "enriched_corpus_item list" where
  "pair_items = [mk_item ''a'' ''project'' None, mk_item ''b'' ''project'' None]"

definition five_store :: "enriched_corpus_item list" where
  "five_store =
     [mk_item ''A'' ''project'' (Some [3 / 5, 4 / 5]),
      mk_item ''B'' ''project'' (Some [1, 0]),
      mk_item ''C'' ''project'' (Some [0, 1]),
      mk_item ''D'' ''project'' (Some [- 1, 0]),
      mk_item ''E'' ''project'' (Some [0, - 1])]"

definition two_reqs :: "real list list" where
  "two_reqs = [[1, 0], [0, 1]]"

definition long_jd :: string where
  "long_jd = replicate 1001 (CHR ''a'')"

definition svc_prefix_only :: "string list \<Rightarrow> embedding_response" where
  "svc_prefix_only reqs =
     (if reqs = [replicate 1000 (CHR ''a'')] then EmbedResponse (Some [Some [1, 0]])
      else EmbedFails)"

declare cosine_loop.simps [simp del] enrich_batches.simps [simp del]
  embed_batches.simps [simp del]

section \<open>Properties of the vector math\<close>

lemma jsmul_NaN_right [simp]: "jsmul x NaN = NaN"
  by (cases x) simp_all

lemma jsadd_NaN_right [simp]: "jsadd x NaN = NaN"
  by (cases x) simp_all

lemma jsdiv_NaN_left [simp]: "jsdiv NaN y = NaN"
  by (cases y) simp_all

text \<open>
  While \<open>vecB\<close> is at least as long as \<open>vecA\<close>, the loop adds up real sums.
\<close>

lemma cosine_loop_finite:
  "length vecA \<le> length vecB \<Longrightarrow>
   cosine_loop vecA vecB i (Num d, Num na, Num nb) =
     (Num (d + sum_list (map (\<lambda>k. vecA ! k * vecB ! k) [i..<length vecA])),
      Num (na + sum_list (map (\<lambda>k. vecA ! k * vecA ! k) [i..<length vecA])),
      Num (nb + sum_list (map (\<lambda>k. vecB ! k * vecB ! k) [i..<length vecA])))"
proof (induction "length vecA - i" arbitrary: i d na nb)
  case 0
  then show ?case by (simp add: cosine_loop.simps)
next
  case (Suc n)
  then have lt: "i < length vecA" and n: "n = length vecA - Suc i" by simp_all
  have ltB: "i < length vecB" using lt Suc.prems by simp
  show ?case
    using Suc.hyps(1) [OF n Suc.prems, of "d + vecA ! i * vecB ! i" "na + vecA ! i * vecA ! i"
                         "nb + vecB ! i * vecB ! i"] lt ltB
    by (subst cosine_loop.simps) (simp add: js_at_def upt_conv_Cons)
qed

text \<open>Once the dot product is \<open>NaN\<close> it stays \<open>NaN\<close>.\<close>

lemma cosine_loop_NaN_stays:
  "fst (cosine_loop vecA vecB i (NaN, na, nb)) = NaN"
proof (induction "length vecA - i" arbitrary: i na nb)
  case 0
  then show ?case by (simp add: cosine_loop.simps)
next
  case (Suc n)
  then have lt: "i < length vecA" and n: "n = length vecA - Suc i" by simp_all
  show ?case using Suc.hyps(1) [OF n] lt
    by (subst cosine_loop.simps) simp
qed

text \<open>A \<open>vecB\<close> shorter than \<open>vecA\<close> is read past its end.\<close>

lemma cosine_loop_short:
  "length vecB < length vecA \<Longrightarrow> i \<le> length vecB \<Longrightarrow>
   fst (cosine_loop vecA vecB i (d, na, nb)) = NaN"
proof (induction "length vecB - i" arbitrary: i d na nb)
  case 0
  then have "i = length vecB" by simp
  then show ?case using 0 cosine_loop_NaN_stays
    by (subst cosine_loop.simps) (simp add: js_at_def)
next
  case (Suc n)
  then have lt: "i < length vecB" and n: "n = length vecB - Suc i" by simp_all
  show ?case using Suc.hyps(1) [OF n Suc.prems(1)] lt Suc.prems
    by (subst cosine_loop.simps) simp
qed

lemma cosineSimilarity_short:
  "length vecB < length vecA \<Longrightarrow> cosineSimilarity vecA vecB = NaN"
  using cosine_loop_short [of vecB vecA 0 "Num 0" "Num 0" "Num 0"]
  by (auto simp: cosineSimilarity_def split: prod.splits)

text \<open>The Cauchy-Schwarz inequality for sums over a list of indices.\<close>

lemma quadratic_sum:
  "sum_list (map (\<lambda>k. (f k * t + g k)\<^sup>2) ks)
     = sum_list (map (\<lambda>k. f k * f k) ks) * t\<^sup>2
       + 2 * sum_list (map (\<lambda>k. f k * g k) ks) * t
       + sum_list (map (\<lambda>k. g k * g k) ks)" for t :: real
  by (induction ks) (simp_all add: power2_eq_square algebra_simps)

lemma sum_squares_zero:
  "sum_list (map (\<lambda>k. f k * f k) ks) = (0::real) \<Longrightarrow> sum_list (map (\<lambda>k. f k * g k) ks) = 0"
proof (induction ks)
  case Nil
  then show ?case by simp
next
  case (Cons k ks)
  have nn: "0 \<le> sum_list (map (\<lambda>k. f k * f k) ks)"
    by (rule sum_list_nonneg) auto
  have "0 \<le> f k * f k" by simp
  with Cons.prems nn have "f k * f k = 0" "sum_list (map (\<lambda>k. f k * f k) ks) = 0"
    by (simp_all add: add_nonneg_eq_0_iff)
  then show ?case using Cons.IH by simp
qed

lemma cauchy_schwarz_list:
  "(sum_list (map (\<lambda>k. f k * g k) ks))\<^sup>2
     \<le> sum_list (map (\<lambda>k. f k * f k) ks) * sum_list (map (\<lambda>k. g k * g k) ks)"
  (is "?S\<^sup>2 \<le> ?A * ?B") for f g :: "'a \<Rightarrow> real"
proof (cases "?A = 0")
  case True
  then show ?thesis using sum_squares_zero [of f ks g] by simp
next
  case False
  have A_nonneg: "0 \<le> ?A" by (rule sum_list_nonneg) auto
  with False have A_pos: "0 < ?A" by simp
  define t where "t = - ?S / ?A"
  have "0 \<le> sum_list (map (\<lambda>k. (f k * t + g k)\<^sup>2) ks)"
    by (rule sum_list_nonneg) auto
  then have "0 \<le> ?A * t\<^sup>2 + 2 * ?S * t + ?B"
    by (simp add: quadratic_sum)
  then have "0 \<le> ?A * (?A * t\<^sup>2 + 2 * ?S * t + ?B)"
    using A_nonneg by simp
  also have "?A * (?A * t\<^sup>2 + 2 * ?S * t + ?B) = ?A * ?B - ?S\<^sup>2"
    using False by (simp add: t_def power2_eq_square field_simps)
  finally show ?thesis by simp
qed

text \<open>
  The value of \<open>cosineSimilarity\<close> when \<open>vecB\<close> is long enough: \<open>NaN\<close> when one of
  the two norms is 0, the quotient otherwise.
\<close>

lemma cosineSimilarity_value:
  assumes "length vecA \<le> length vecB"
  shows "cosineSimilarity vecA vecB =
     (let S = sum_list (map (\<lambda>k. vecA ! k * vecB ! k) [0..<length vecA]);
          A = sum_list (map (\<lambda>k. vecA ! k * vecA ! k) [0..<length vecA]);
          B = sum_list (map (\<lambda>k. vecB ! k * vecB ! k) [0..<length vecA])
      in if A = 0 \<or> B = 0 then NaN else Num (S / (sqrt A * sqrt B)))"
proof -
  let ?ks = "[0..<length vecA]"
  let ?S = "sum_list (map (\<lambda>k. vecA ! k * vecB ! k) ?ks)"
  let ?A = "sum_list (map (\<lambda>k. vecA ! k * vecA ! k) ?ks)"
  let ?B = "sum_list (map (\<lambda>k. vecB ! k * vecB ! k) ?ks)"
  have A: "0 \<le> ?A" by (rule sum_list_nonneg) auto
  have B: "0 \<le> ?B" by (rule sum_list_nonneg) auto
  have loop: "cosine_loop vecA vecB 0 (Num 0, Num 0, Num 0) = (Num ?S, Num ?A, Num ?B)"
    using cosine_loop_finite [OF assms, of 0 0 0 0] by simp
  have S0: "?S = 0" if "?A = 0 \<or> ?B = 0"
  proof -
    have "?S = sum_list (map (\<lambda>k. vecB ! k * vecA ! k) ?ks)"
      by (simp add: mult.commute)
    then show ?thesis
      using that sum_squares_zero [of "\<lambda>k. vecA ! k" ?ks "\<lambda>k. vecB ! k"]
        sum_squares_zero [of "\<lambda>k. vecB ! k" ?ks "\<lambda>k. vecA ! k"] by auto
  qed
  show ?thesis
    using A B S0 by (auto simp: cosineSimilarity_def loop Let_def)
qed

lemma cosineSimilarity_range:
  "cosineSimilarity vecA vecB = NaN
   \<or> (\<exists>x. cosineSimilarity vecA vecB = Num x \<and> - 1 \<le> x \<and> x \<le> 1)"
proof (cases "length vecA \<le> length vecB")
  case False
  then show ?thesis by (simp add: cosineSimilarity_short)
next
  case True
  let ?ks = "[0..<length vecA]"
  let ?S = "sum_list (map (\<lambda>k. vecA ! k * vecB ! k) ?ks)"
  let ?A = "sum_list (map (\<lambda>k. vecA ! k * vecA ! k) ?ks)"
  let ?B = "sum_list (map (\<lambda>k. vecB ! k * vecB ! k) ?ks)"
  show ?thesis
  proof (cases "?A = 0 \<or> ?B = 0")
    case True
    then show ?thesis using cosineSimilarity_value [OF \<open>length vecA \<le> length vecB\<close>]
      by (simp add: Let_def)
  next
    case False
    have A: "0 \<le> ?A" by (rule sum_list_nonneg) auto
    have B: "0 \<le> ?B" by (rule sum_list_nonneg) auto
    have pos: "0 < sqrt ?A * sqrt ?B" using A B False by simp
    have "\<bar>?S\<bar> = sqrt (?S\<^sup>2)" by simp
    also have "\<dots> \<le> sqrt (?A * ?B)"
      using cauchy_schwarz_list [of "\<lambda>k. vecA ! k" "\<lambda>k. vecB ! k" ?ks]
      by (rule real_sqrt_le_mono)
    also have "\<dots> = sqrt ?A * sqrt ?B" by (rule real_sqrt_mult)
    finally have "\<bar>?S\<bar> \<le> sqrt ?A * sqrt ?B" .
    then have "\<bar>?S / (sqrt ?A * sqrt ?B)\<bar> \<le> 1"
      using pos by (simp add: field_simps)
    then have "- 1 \<le> ?S / (sqrt ?A * sqrt ?B) \<and> ?S / (sqrt ?A * sqrt ?B) \<le> 1"
      unfolding abs_le_iff by linarith
    moreover have "cosineSimilarity vecA vecB = Num (?S / (sqrt ?A * sqrt ?B))"
      using cosineSimilarity_value [OF \<open>length vecA \<le> length vecB\<close>] False
      by (simp add: Let_def)
    ultimately show ?thesis by blast
  qed
qed

text \<open>The similarity is a number exactly when neither norm is 0 and \<open>vecB\<close> is long enough.\<close>

lemma cosineSimilarity_numeric_iff:
  "is_num (cosineSimilarity vecA vecB) \<longleftrightarrow>
     length vecA \<le> length vecB
     \<and> sum_list (map (\<lambda>k. vecA ! k * vecA ! k) [0..<length vecA]) \<noteq> 0
     \<and> sum_list (map (\<lambda>k. vecB ! k * vecB ! k) [0..<length vecA]) \<noteq> 0"
proof (cases "length vecA \<le> length vecB")
  case True
  then show ?thesis
    by (simp add: cosineSimilarity_value Let_def is_num_def)
next
  case False
  then show ?thesis
    by (simp add: cosineSimilarity_short is_num_def)
qed

text \<open>
  Claim C10. The claim holds wherever the similarity is a number, by
  \<open>cosineSimilarity_range\<close>, but the code has no guard for the degenerate vectors the
  claim names: a requirement whose embedding has no values is given the vector \<open>[]\<close> by
  \<open>getRagContext\<close> itself, and its score against every item is \<open>NaN\<close>; so is the
  score against an embedding of zero norm, and against an embedding shorter than the
  requirement vector.
\<close>

theorem score_of_degenerate_vectors:
  "req_embeddings (EmbedResponse (Some [None])) = [[]]
   \<and> item_score [] (mk_item ''a'' ''project'' (Some [1, 0])) = NaN
   \<and> item_score [1, 0] (mk_item ''a'' ''project'' (Some [0, 0])) = NaN
   \<and> item_score [1, 0] (mk_item ''a'' ''project'' (Some [1])) = NaN"
  by (simp add: req_embeddings_def item_score_def mk_item_def cosineSimilarity_def
        cosine_loop.simps js_at_def)

section \<open>Properties of the chunker\<close>

lemma count_kind_Nil [simp]: "count_kind t st [] = 0"
  by (simp add: count_kind_def)

lemma count_kind_append [simp]: "count_kind t st (xs @ ys) = count_kind t st xs + count_kind t st ys"
  by (simp add: count_kind_def)

lemma count_kind_concat:
  "count_kind t st (concat (map f xs)) = sum_list (map (\<lambda>x. count_kind t st (f x)) xs)"
  by (induction xs) simp_all

lemma count_kind_map:
  "count_kind t st (map f xs) = sum_list (map (\<lambda>x. count_kind t st [f x]) xs)"
  by (induction xs) (simp_all add: count_kind_def)

lemma count_work_chunks:
  "count_kind t st (work_chunks job) =
     (if t = ''work_experience'' \<and> st = None then length (bullet_points job) else 0)"
  by (auto simp: count_kind_def work_chunks_def chunk_type_def chunk_subtype_def Let_def o_def)

lemma count_project_chunks:
  "count_kind t st (project_chunks proj) =
     (if t = ''project'' \<and> st = None then length (proj_bullet_points proj) else 0)"
  by (auto simp: count_kind_def project_chunks_def chunk_type_def chunk_subtype_def Let_def o_def)

lemma count_education_chunks:
  "count_kind t st (education_chunks edu) =
     (if t = ''education'' \<and> st = Some ''degree'' then 1
      else if t = ''education'' \<and> st = Some ''achievement'' then length (achievements edu)
      else 0)"
  by (cases st) (auto simp: count_kind_def education_chunks_def chunk_type_def chunk_subtype_def Let_def o_def)

lemma count_skill_chunk:
  "count_kind t st [skill_chunk g] = (if t = ''skill_group'' \<and> st = None then 1 else 0)"
  by (auto simp: count_kind_def skill_chunk_def chunk_type_def chunk_subtype_def Let_def)

lemma count_certification_chunk:
  "count_kind t st [certification_chunk c] = (if t = ''certification'' \<and> st = None then 1 else 0)"
  by (auto simp: count_kind_def certification_chunk_def chunk_type_def chunk_subtype_def)

lemma count_summary_chunk:
  "count_kind t st [summary_chunk s] = (if t = ''summary'' \<and> st = None then 1 else 0)"
  by (auto simp: count_kind_def summary_chunk_def chunk_type_def chunk_subtype_def)

lemma sum_list_const: "sum_list (map (\<lambda>x. c) xs) = length xs * (c::nat)"
  by (induction xs) simp_all

lemma sum_list_Suc: "sum_list (map (\<lambda>x. Suc (f x)) xs) = length xs + sum_list (map f xs)"
  by (induction xs) simp_all

lemma length_summary_list: "length (summary_list s) = summary_count s"
  by (simp add: summary_list_def summary_count_def split: option.splits)

lemma generateRichCorpus_present:
  "generateRichCorpus D =
     concat (map work_chunks (present (work_experiences D)))
     @ concat (map project_chunks (present (projects D)))
     @ concat (map education_chunks (present (educations D)))
     @ map skill_chunk (present (skills D))
     @ map certification_chunk (present (certifications D))
     @ map summary_chunk (summary_list (professional_summary D))"
  by (simp add: generateRichCorpus_def present_def summary_list_def split: option.splits)

lemma length_generateRichCorpus:
  "length (generateRichCorpus D)
     = sum_list (map (\<lambda>job. length (bullet_points job)) (present (work_experiences D)))
       + sum_list (map (\<lambda>proj. length (proj_bullet_points proj)) (present (projects D)))
       + (length (present (educations D))
          + sum_list (map (\<lambda>edu. length (achievements edu)) (present (educations D))))
       + length (present (skills D))
       + length (present (certifications D))
       + summary_count (professional_summary D)"
  by (simp add: generateRichCorpus_present length_concat o_def length_summary_list
        work_chunks_def project_chunks_def education_chunks_def Let_def sum_list_Suc)

lemma count_generateRichCorpus:
  "count_kind t st (generateRichCorpus D) =
     (if t = ''work_experience'' \<and> st = None
        then sum_list (map (\<lambda>job. length (bullet_points job)) (present (work_experiences D))) else 0)
   + (if t = ''project'' \<and> st = None
        then sum_list (map (\<lambda>proj. length (proj_bullet_points proj)) (present (projects D))) else 0)
   + (if t = ''education'' \<and> st = Some ''degree'' then length (present (educations D))
      else if t = ''education'' \<and> st = Some ''achievement''
        then sum_list (map (\<lambda>edu. length (achievements edu)) (present (educations D))) else 0)
   + (if t = ''skill_group'' \<and> st = None then length (present (skills D)) else 0)
   + (if t = ''certification'' \<and> st = None then length (present (certifications D)) else 0)
   + (if t = ''summary'' \<and> st = None then summary_count (professional_summary D) else 0)"
  by (simp add: generateRichCorpus_present count_kind_concat count_kind_map
        count_work_chunks count_project_chunks count_education_chunks count_skill_chunk
        count_certification_chunk count_summary_chunk sum_list_const length_summary_list)

text \<open>
  Claim C6. For every parsed resume the chunker produces one chunk per work-experience
  bullet, one per project bullet, one degree chunk per education entry and one more per
  achievement, one per skill group, one per certification, and one summary chunk exactly
  when the summary is present and non-empty. An absent or empty collection contributes
  no chunk, and the function has no failing branch: every absent collection is skipped
  by its guard.
\<close>

theorem chunker_counts:
  "count_kind ''work_experience'' None (generateRichCorpus D)
     = sum_list (map (\<lambda>job. length (bullet_points job)) (present (work_experiences D)))
   \<and> count_kind ''project'' None (generateRichCorpus D)
     = sum_list (map (\<lambda>proj. length (proj_bullet_points proj)) (present (projects D)))
   \<and> count_kind ''education'' (Some ''degree'') (generateRichCorpus D) = length (present (educations D))
   \<and> count_kind ''education'' (Some ''achievement'') (generateRichCorpus D)
     = sum_list (map (\<lambda>edu. length (achievements edu)) (present (educations D)))
   \<and> count_kind ''skill_group'' None (generateRichCorpus D) = length (present (skills D))
   \<and> count_kind ''certification'' None (generateRichCorpus D) = length (present (certifications D))
   \<and> count_kind ''summary'' None (generateRichCorpus D) = summary_count (professional_summary D)
   \<and> length (generateRichCorpus D)
     = sum_list (map (\<lambda>job. length (bullet_points job)) (present (work_experiences D)))
       + sum_list (map (\<lambda>proj. length (proj_bullet_points proj)) (present (projects D)))
       + (length (present (educations D))
          + sum_list (map (\<lambda>edu. length (achievements edu)) (present (educations D))))
       + length (present (skills D))
       + length (present (certifications D))
       + summary_count (professional_summary D)"
  by (simp add: count_generateRichCorpus length_generateRichCorpus)

theorem chunker_counts_witness:
  "length (generateRichCorpus sample_resume) = 6
   \<and> count_kind ''work_experience'' None (generateRichCorpus sample_resume) = 1
   \<and> count_kind ''education'' (Some ''achievement'') (generateRichCorpus sample_resume) = 2
   \<and> count_kind ''summary'' None (generateRichCorpus sample_resume) = 1"
  using chunker_counts [of sample_resume]
  by (simp add: sample_resume_def present_def summary_count_def)

section \<open>Properties of the enricher\<close>

lemma map_filter_append_list:
  "List.map_filter f (xs @ ys) = List.map_filter f xs @ List.map_filter f ys"
  by (simp add: List.map_filter_def)

lemma map_filter_of_map:
  "List.map_filter (\<lambda>r. r) (map f xs) = List.map_filter f xs"
  by (simp add: List.map_filter_def filter_map o_def)

lemma length_map_filter:
  "length (List.map_filter f xs) = length (filter (\<lambda>x. f x \<noteq> None) xs)"
  by (simp add: List.map_filter_def)

lemma length_filter_compl:
  "length (filter (\<lambda>x. \<not> P x) xs) = length xs - length (filter P xs)"
  using sum_length_filter_compl [of P xs] by simp

text \<open>The results of one batch, by the index of the chunk in the corpus.\<close>

lemma batch_results:
  "map (\<lambda>(k, item). f item (i + k)) (enumerate 0 (js_slice i (i + b) corpus))
   = map (\<lambda>k. f (corpus ! k) k) [i..<min (i + b) (length corpus)]"
  by (auto simp: js_slice_def enumerate_eq_zip list_eq_iff_nth_eq min_def add.commute)

text \<open>
  The batch loop collects, in corpus order, the result of \<open>enrichItem\<close> for every chunk
  from index \<open>i\<close> on, leaving out the \<open>null\<close> results.
\<close>

lemma enrich_batches_eq:
  "enrich_batches corpus rid gen i acc =
     acc @ List.map_filter (\<lambda>k. enrichItem (corpus ! k) (rid k) (gen k)) [i..<length corpus]"
proof (induction corpus rid gen i acc rule: enrich_batches.induct)
  case (1 corpus rid gen i acc)
  let ?f = "\<lambda>k. enrichItem (corpus ! k) (rid k) (gen k)"
  show ?case
  proof (cases "i < length corpus")
    case False
    then show ?thesis by (simp add: enrich_batches.simps)
  next
    case True
    let ?m = "min (i + BATCH_SIZE) (length corpus)"
    have res: "map (\<lambda>(k, item). enrichItem item (rid (i + k)) (gen (i + k)))
                 (enumerate 0 (js_slice i (i + BATCH_SIZE) corpus)) = map ?f [i..<?m]"
      using batch_results [of "\<lambda>item k. enrichItem item (rid k) (gen k)" i BATCH_SIZE corpus]
      by simp
    have split: "[i..<length corpus] = [i..<?m] @ [?m..<length corpus]"
    proof -
      have "i \<le> ?m" "?m \<le> length corpus" using True by simp_all
      then show ?thesis
        using upt_add_eq_append [of i ?m "length corpus - ?m"] by simp
    qed
    have tail: "[i + BATCH_SIZE..<length corpus] = [?m..<length corpus]"
      by (cases "i + BATCH_SIZE \<le> length corpus") (simp_all add: min_def)
    have "enrich_batches corpus rid gen i acc =
            enrich_batches corpus rid gen (i + BATCH_SIZE)
              (acc @ List.map_filter (\<lambda>res. res) (map ?f [i..<?m]))"
      using True res by (subst enrich_batches.simps) (simp add: Let_def)
    also have "\<dots> = (acc @ List.map_filter (\<lambda>res. res) (map ?f [i..<?m]))
                     @ List.map_filter ?f [i + BATCH_SIZE..<length corpus]"
      using "1.IH" [OF True refl refl] res by simp
    also have "\<dots> = acc @ List.map_filter ?f [i..<length corpus]"
      unfolding tail by (subst split) (simp add: map_filter_of_map map_filter_append_list)
    finally show ?thesis .
  qed
qed

lemma enrichItem_None_iff: "enrichItem item rid response = None \<longleftrightarrow> response = NoText"
  by (cases response) (simp_all add: enrichItem_def enrichItem_try_def)

text \<open>
  Claim C3, as amended. The enrichment phase yields one item (regular or fallback) for
  every chunk whose call rejects, fails to parse or succeeds, and no item for a chunk
  whose response has a missing or empty text: the number of enriched items is the number
  of chunks minus the number of responses without text. It equals the number of chunks
  exactly when no response lacks its text.
\<close>

theorem enrichment_phase_length:
  "length (enrich_batches corpus rid gen 0 [])
     = length corpus - length (filter (\<lambda>k. gen k = NoText) [0..<length corpus])"
  using length_filter_compl [of "\<lambda>k. gen k = NoText" "[0..<length corpus]"]
  by (simp add: enrich_batches_eq length_map_filter enrichItem_None_iff)

theorem enrichment_phase_length_witness:
  "length (enrich_batches [sample_chunk, sample_chunk] const_rid gen_rejects 0 []) = 2"
  using enrichment_phase_length [of "[sample_chunk, sample_chunk]" const_rid gen_rejects]
  by (simp add: gen_rejects_def)

text \<open>
  The claim as first stated fails: one chunk whose response carries no text makes
  \<open>enrichItem\<close> return \<open>null\<close>, and the phase yields no item for it.
\<close>

theorem enrichment_drops_chunk_counterexample:
  "length (enrich_batches [sample_chunk] const_rid gen_no_text 0 []) \<noteq> length [sample_chunk]"
  by (simp add: enrich_batches_eq gen_no_text_def enrichItem_def enrichItem_try_def)

text \<open>
  Claim C7, as amended. When the generation call rejects (error, timeout) or the body does
  not parse, \<open>enrichItem\<close> returns the fallback item: content equal to the chunk text,
  empty keyword and implied-skill lists, category \<open>unknown\<close>. When the response text is
  missing or empty it returns \<open>null\<close> instead of an item. Every throw inside the
  \<open>try\<close> block ends in the fallback item, so no exception leaves the function.
\<close>

theorem enrichItem_on_failure:
  "(response = CallFails \<or> response = BadJson \<longrightarrow>
      enrichItem item rid response =
        Some \<lparr>item_id = rid, content = chunk_text item, item_keywords = [], skills_implied = [],
              category = ''unknown'', raw_source = chunk_text item,
              item_metadata = chunk_metadata item, embedding = None\<rparr>)
   \<and> (response = NoText \<longrightarrow> enrichItem item rid response = None)
   \<and> (\<forall>e. enrichItem_try item rid response = Inl e \<longrightarrow>
          enrichItem item rid response = Some (fallback_item item rid))"
  by (auto simp: enrichItem_def enrichItem_try_def fallback_item_def)

theorem enrichItem_on_failure_witness:
  "enrichItem sample_chunk ''r'' CallFails =
     Some \<lparr>item_id = ''r'', content = chunk_text sample_chunk, item_keywords = [],
           skills_implied = [], category = ''unknown'', raw_source = chunk_text sample_chunk,
           item_metadata = chunk_metadata sample_chunk, embedding = None\<rparr>
   \<and> enrichItem sample_chunk ''r'' NoText = None
   \<and> enrichItem_try sample_chunk ''r'' BadJson = Inl SyntaxError
   \<and> enrichItem sample_chunk ''r'' BadJson = Some (fallback_item sample_chunk ''r'')"
  using enrichItem_on_failure [of CallFails sample_chunk "''r''"]
        enrichItem_on_failure [of NoText sample_chunk "''r''"]
        enrichItem_on_failure [of BadJson sample_chunk "''r''"]
  by (simp add: enrichItem_try_def fallback_item_def)

text \<open>
  The claim as first stated fails for a missing response body: the result is \<open>null\<close>,
  not the fallback item.
\<close>

theorem enrichItem_missing_body_counterexample:
  "enrichItem sample_chunk ''r'' NoText \<noteq> Some (fallback_item sample_chunk ''r'')"
  by (simp add: enrichItem_def enrichItem_try_def)

section \<open>Properties of the vectorizer\<close>

lemma assign_embeddings_length [simp]:
  "length (assign_embeddings pos embs its) = length its"
  by (induction embs arbitrary: pos its) (auto split: option.splits)

lemma assign_embeddings_nth:
  "pos + length embs \<le> length its \<Longrightarrow> k < length its \<Longrightarrow>
   assign_embeddings pos embs its ! k =
     (if pos \<le> k \<and> k < pos + length embs then attach (embs ! (k - pos)) (its ! k) else its ! k)"
proof (induction embs arbitrary: pos its)
  case Nil
  then show ?case by auto
next
  case (Cons e es)
  show ?case
  proof (cases e)
    case None
    with Cons.prems Cons.IH [of "pos + 1" its] show ?thesis
      by (auto simp: attach_def nth_Cons' Suc_diff_le)
  next
    case (Some v)
    let ?its = "its[pos := (its ! pos)\<lparr>embedding := Some v\<rparr>]"
    have "pos < length its" using Cons.prems by simp
    moreover have "pos + 1 + length es \<le> length ?its" "k < length ?its"
      using Cons.prems by simp_all
    ultimately show ?thesis
      using Some Cons.IH [of "pos + 1" ?its]
      by (auto simp: attach_def nth_Cons' nth_list_update Suc_diff_le)
  qed
qed


lemma batch_start_20:
  fixes i k :: nat
  assumes "i mod 20 = 0" "i \<le> k" "k < i + 20"
  shows "(k div 20) * 20 = i"
proof -
  from assms(1) obtain q where q: "i = 20 * q" by (auto simp: mod_eq_0_iff_dvd)
  from assms(2) obtain r where r: "k = i + r" by (auto simp: le_iff_add)
  with assms(3) have "r < 20" by simp
  then have "k div 20 = q" unfolding r q by simp
  then show ?thesis using q by simp
qed

lemma batch_start_of:
  "i mod EMBED_BATCH_SIZE = 0 \<Longrightarrow> i \<le> k \<Longrightarrow> k < i + EMBED_BATCH_SIZE \<Longrightarrow>
   (k div EMBED_BATCH_SIZE) * EMBED_BATCH_SIZE = i"
  unfolding EMBED_BATCH_SIZE_def by (rule batch_start_20)


lemma well_sized_batch:
  assumes "well_sized embedSvc texts" "i < length texts" "i mod EMBED_BATCH_SIZE = 0"
    "embedSvc i (js_slice i (i + EMBED_BATCH_SIZE) texts) = EmbedResponse (Some embs)"
  shows "i + length embs \<le> length texts" "length embs \<le> EMBED_BATCH_SIZE"
proof -
  have "batch_sized embedSvc texts i"
    using assms(1,2,3) by (simp add: well_sized_def list_all_iff)
  with assms(4) have "length embs \<le> length (js_slice i (i + EMBED_BATCH_SIZE) texts)"
    by (simp add: batch_sized_def)
  then show "i + length embs \<le> length texts" "length embs \<le> EMBED_BATCH_SIZE"
    using assms(2) by (auto simp: js_slice_def)
qed

lemma embed_batches_nth:
  assumes ws: "well_sized embedSvc texts"
  shows "length its = length texts \<Longrightarrow> i mod EMBED_BATCH_SIZE = 0 \<Longrightarrow>
     length (embed_batches texts embedSvc i its) = length its \<and>
     (\<forall>k < length its. embed_batches texts embedSvc i its ! k =
        (if i \<le> k then attach (returned_vector embedSvc texts k) (its ! k) else its ! k))"
proof (induction "length texts - i" arbitrary: i its rule: less_induct)
  case less
  show ?case
  proof (cases "i < length texts")
    case False
    then show ?thesis using less.prems by (simp add: embed_batches.simps)
  next
    case True
    let ?batch = "js_slice i (i + EMBED_BATCH_SIZE) texts"
    let ?its = "case embedSvc i ?batch of
                  EmbedFails \<Rightarrow> its
                | EmbedResponse None \<Rightarrow> its
                | EmbedResponse (Some embs) \<Rightarrow> assign_embeddings i embs its"
    have step: "embed_batches texts embedSvc i its
                  = embed_batches texts embedSvc (i + EMBED_BATCH_SIZE) ?its"
      using True by (subst embed_batches.simps) (simp add: Let_def)
    have len: "length ?its = length its"
      by (simp split: embedding_response.splits option.splits)
    have nth: "?its ! k =
        (if i \<le> k \<and> k < i + EMBED_BATCH_SIZE
         then attach (returned_vector embedSvc texts k) (its ! k) else its ! k)"
      if k: "k < length its" for k
    proof (cases "embedSvc i ?batch")
      case EmbedFails
      then show ?thesis
        using batch_start_of [OF less.prems(2), of k]
        by (auto simp: returned_vector_def attach_def Let_def)
    next
      case (EmbedResponse r)
      show ?thesis
      proof (cases r)
        case None
        then show ?thesis
          using EmbedResponse batch_start_of [OF less.prems(2), of k]
          by (auto simp: returned_vector_def attach_def Let_def)
      next
        case (Some embs)
        have resp: "embedSvc i ?batch = EmbedResponse (Some embs)"
          using EmbedResponse Some by simp
        note sz = well_sized_batch [OF ws True less.prems(2) resp]
        have "assign_embeddings i embs its ! k =
                (if i \<le> k \<and> k < i + length embs then attach (embs ! (k - i)) (its ! k)
                 else its ! k)"
          using sz(1) k less.prems(1) by (intro assign_embeddings_nth) simp_all
        then show ?thesis
          using resp sz(2) batch_start_of [OF less.prems(2), of k]
          by (auto simp: returned_vector_def attach_def Let_def)
      qed
    qed
    have IH: "length (embed_batches texts embedSvc (i + EMBED_BATCH_SIZE) ?its) = length ?its \<and>
       (\<forall>k < length ?its. embed_batches texts embedSvc (i + EMBED_BATCH_SIZE) ?its ! k =
          (if i + EMBED_BATCH_SIZE \<le> k then attach (returned_vector embedSvc texts k) (?its ! k)
           else ?its ! k))"
      using True less.prems len
      by (intro less.hyps) (simp_all add: EMBED_BATCH_SIZE_def)
    show ?thesis
      unfolding step using IH len nth by auto
  qed
qed

lemma embed_phase_eq:
  assumes "well_sized embedSvc (map content its)"
  shows "embed_phase embedSvc its =
           map (\<lambda>k. attach (returned_vector embedSvc (map content its) k) (its ! k)) [0..<length its]"
proof -
  have len: "length its = length (map content its)" by simp
  have zero: "0 mod EMBED_BATCH_SIZE = 0" by simp
  note nth = embed_batches_nth [OF assms len zero]
  show ?thesis
    unfolding embed_phase_def
  proof (rule nth_equalityI)
    show "length (embed_batches (map content its) embedSvc 0 its) =
          length (map (\<lambda>k. attach (returned_vector embedSvc (map content its) k) (its ! k))
                    [0..<length its])"
      using nth by simp
  next
    fix k assume "k < length (embed_batches (map content its) embedSvc 0 its)"
    then have k: "k < length its" using nth by simp
    with nth show "embed_batches (map content its) embedSvc 0 its ! k =
          map (\<lambda>k. attach (returned_vector embedSvc (map content its) k) (its ! k))
            [0..<length its] ! k"
      by simp
  qed
qed

lemma enrichItem_unembedded: "enrichItem item rid response = Some it \<Longrightarrow> embedding it = None"
  by (cases response) (auto simp: enrichItem_def enrichItem_try_def fallback_item_def)

lemma enrich_batches_unembedded:
  "it \<in> set (enrich_batches corpus rid gen 0 []) \<Longrightarrow> embedding it = None"
  by (auto simp: enrich_batches_eq List.map_filter_def dest: enrichItem_unembedded)

lemma filter_attached:
  assumes "\<forall>it \<in> set its. embedding it = None"
  shows "filter (\<lambda>it. embedding it \<noteq> None) (map (\<lambda>k. attach (rv k) (its ! k)) [0..<length its])
         = map (\<lambda>k. (its ! k)\<lparr>embedding := rv k\<rparr>) (filter (\<lambda>k. rv k \<noteq> None) [0..<length its])"
proof -
  let ?ks = "[0..<length its]"
  have a: "(embedding (attach (rv k) (its ! k)) \<noteq> None) = (rv k \<noteq> None)" if "k \<in> set ?ks" for k
    using assms that by (cases "rv k") (simp_all add: attach_def)
  have b: "attach (rv k) (its ! k) = (its ! k)\<lparr>embedding := rv k\<rparr>"
    if "k \<in> set (filter (\<lambda>k. rv k \<noteq> None) ?ks)" for k
    using that by (cases "rv k") (simp_all add: attach_def)
  have "filter (\<lambda>it. embedding it \<noteq> None) (map (\<lambda>k. attach (rv k) (its ! k)) ?ks)
          = map (\<lambda>k. attach (rv k) (its ! k))
              (filter (\<lambda>k. embedding (attach (rv k) (its ! k)) \<noteq> None) ?ks)"
    by (simp add: filter_map o_def)
  also have "filter (\<lambda>k. embedding (attach (rv k) (its ! k)) \<noteq> None) ?ks
          = filter (\<lambda>k. rv k \<noteq> None) ?ks"
    by (rule filter_cong [OF refl]) (rule a)
  also have "map (\<lambda>k. attach (rv k) (its ! k)) (filter (\<lambda>k. rv k \<noteq> None) ?ks)
          = map (\<lambda>k. (its ! k)\<lparr>embedding := rv k\<rparr>) (filter (\<lambda>k. rv k \<noteq> None) ?ks)"
    by (rule map_cong [OF refl]) (rule b)
  finally show ?thesis .
qed

text \<open>
  Claim C5, as amended. For every enriched-item list and every behaviour of the embedding
  service in which no response carries more vectors than its batch has texts, the
  embedding phase attaches to each item exactly the vector returned at the item's
  batch-relative position and leaves every other item as it was; the vector store that
  \<open>enrichAndEmbedCorpus\<close> returns is exactly the list of the items that received a
  vector, each with that vector, in their original order.
\<close>

theorem embeddings_by_position:
  assumes "well_sized embedSvc (map content its)"
  shows "embed_phase embedSvc its =
           map (\<lambda>k. attach (returned_vector embedSvc (map content its) k) (its ! k))
             [0..<length its]
         \<and> (its = enrich_batches corpus rid gen 0 [] \<longrightarrow>
              enrichAndEmbedCorpus corpus rid gen embedSvc =
                map (\<lambda>k. (its ! k)\<lparr>embedding := returned_vector embedSvc (map content its) k\<rparr>)
                  (filter (\<lambda>k. returned_vector embedSvc (map content its) k \<noteq> None)
                     [0..<length its]))"
proof (intro conjI impI)
  show eq: "embed_phase embedSvc its =
           map (\<lambda>k. attach (returned_vector embedSvc (map content its) k) (its ! k))
             [0..<length its]"
    using assms by (rule embed_phase_eq)
  assume its: "its = enrich_batches corpus rid gen 0 []"
  then have "\<forall>it \<in> set its. embedding it = None"
    by (auto dest: enrich_batches_unembedded)
  from filter_attached [OF this, of "returned_vector embedSvc (map content its)"]
  show "enrichAndEmbedCorpus corpus rid gen embedSvc =
                map (\<lambda>k. (its ! k)\<lparr>embedding := returned_vector embedSvc (map content its) k\<rparr>)
                  (filter (\<lambda>k. returned_vector embedSvc (map content its) k \<noteq> None)
                     [0..<length its])"
    using eq its by (simp add: enrichAndEmbedCorpus_def vector_store_of_def)
qed

theorem embeddings_by_position_witness:
  "well_sized svc_first_only (map content pair_items)
   \<and> embed_phase svc_first_only pair_items
       = [mk_item ''a'' ''project'' (Some [1, 0]), mk_item ''b'' ''project'' None]"
  using embeddings_by_position [of svc_first_only pair_items "[]" const_rid gen_rejects]
  by (simp add: well_sized_def batch_sized_def svc_first_only_def pair_items_def js_slice_def
        EMBED_BATCH_SIZE_def returned_vector_def attach_def mk_item_def)

text \<open>
  The claim as first stated fails when a response is longer than its batch: with 21
  items, a first response of 21 vectors and a failing second call, the item at index 20
  keeps the vector that the first response carried at index 20, although nothing was
  returned at its own position (index 0 of the second batch).
\<close>

theorem oversized_response_counterexample:
  "returned_vector svc_too_long (map content many_items) 20 = None
   \<and> embedding (embed_phase svc_too_long many_items ! 20) = Some [1]"
proof
  show "returned_vector svc_too_long (map content many_items) 20 = None"
    by (simp add: returned_vector_def svc_too_long_def EMBED_BATCH_SIZE_def)
next
  let ?T = "map content many_items"
  let ?its = "assign_embeddings 0 (replicate 21 (Some [1])) many_items"
  have len: "length ?T = 21" "length many_items = 21" by (simp_all add: many_items_def)
  have s0: "embed_batches ?T svc_too_long 0 many_items = embed_batches ?T svc_too_long 20 ?its"
    by (subst embed_batches.simps) (simp add: len svc_too_long_def EMBED_BATCH_SIZE_def)
  have s1: "embed_batches ?T svc_too_long 20 ?its = embed_batches ?T svc_too_long 40 ?its"
    by (subst embed_batches.simps) (simp add: len svc_too_long_def EMBED_BATCH_SIZE_def)
  have s2: "embed_batches ?T svc_too_long 40 ?its = ?its"
    by (subst embed_batches.simps) (simp add: len)
  have "?its ! 20 = attach (replicate 21 (Some [1]) ! (20 - 0)) (many_items ! 20)"
    using assign_embeddings_nth [of 0 "replicate 21 (Some [1])" many_items 20]
    by (simp add: len)
  then show "embedding (embed_phase svc_too_long many_items ! 20) = Some [1]"
    by (simp add: embed_phase_def s0 s1 s2 attach_def)
qed

section \<open>Properties of the requirement extractor\<close>

text \<open>
  Claim C9, as amended. The requirement extractor returns exactly the list that the
  text-generation service produced, and the empty list when the call rejects, the text is
  missing or it does not parse. The target count only reaches the prompt: the returned
  list is not cut to it.
\<close>

theorem extract_returns_service_list:
  "extractRequirementsFromJD jdText n response =
     (case response of Json reqs \<Rightarrow> reqs | _ \<Rightarrow> [])"
  by (simp add: extractRequirementsFromJD_def extractRequirementsFromJD_try_def
           split: generation.splits)

text \<open>With a target count of 1 and a service that lists two requirements, two are returned.\<close>

theorem extract_exceeds_count_counterexample:
  "\<not> int (length (extractRequirementsFromJD ''Build APIs'' 1 (Json [''REST'', ''SQL'']))) \<le> 1"
  by (simp add: extractRequirementsFromJD_def extractRequirementsFromJD_try_def)

lemma final_ids_guarded:
  "final_ids jdText store opts response (guarded_service embedSvc)
     = final_ids jdText store opts response embedSvc"
  by (simp add: final_ids_def guarded_service_def rag_requirements_def Let_def)

text \<open>
  Claim C8. Whenever the extraction yields no requirement (the call rejects, the text is
  missing or unparseable, or the service lists nothing), \<open>getRagContext\<close> takes the
  first 1000 characters of the job description as the single requirement, and the
  retrieval runs on it: the final id set is the fixed ids extended by the ranking that
  the embedding of that one string produces, and the context is rendered from this set.
  In every case the retrieval runs on the requirement list of step 2, which is never
  empty, so a service guarded against the empty list gives the same context.
\<close>

theorem empty_extraction_fallback:
  "(extractRequirementsFromJD jdText n extraction = [] \<longrightarrow>
      rag_requirements jdText n extraction = [take 1000 jdText])
   \<and> rag_requirements jdText n extraction \<noteq> []
   \<and> (extractRequirementsFromJD jdText (or_default (requirementCount options) 6) extraction = [] \<longrightarrow>
      final_ids jdText vectorStore options extraction embedSvc
        = add_ranked
            (or_default (finalContextLimit options) 15
               + int (length (fixed_ids (or_default (includeSummary options) True)
                                (or_default (includeEducation options) True) vectorStore)))
            (sorted_ids (chunk_scores (or_default (reqMatchCount options) 6) vectorStore
                           (req_embeddings (embedSvc [take 1000 jdText]))))
            (fixed_ids (or_default (includeSummary options) True)
               (or_default (includeEducation options) True) vectorStore))
   \<and> final_ids jdText vectorStore options extraction embedSvc
       = add_ranked
           (or_default (finalContextLimit options) 15
              + int (length (fixed_ids (or_default (includeSummary options) True)
                               (or_default (includeEducation options) True) vectorStore)))
           (sorted_ids (chunk_scores (or_default (reqMatchCount options) 6) vectorStore
              (req_embeddings
                 (embedSvc (rag_requirements jdText (or_default (requirementCount options) 6)
                              extraction)))))
           (fixed_ids (or_default (includeSummary options) True)
              (or_default (includeEducation options) True) vectorStore)
   \<and> getRagContext jdText vectorStore options extraction embedSvc
       = js_join (nl @ nl)
           (map render_block
              (filter (\<lambda>doc. item_id doc
                               \<in> set (final_ids jdText vectorStore options extraction embedSvc))
                 vectorStore))
   \<and> getRagContext jdText vectorStore options extraction (guarded_service embedSvc)
       = getRagContext jdText vectorStore options extraction embedSvc"
proof -
  have req: "rag_requirements jdText m extraction = [take 1000 jdText]"
    if "extractRequirementsFromJD jdText m extraction = []" for m
    using that by (simp add: rag_requirements_def)
  have ne: "rag_requirements jdText n extraction \<noteq> []"
    by (simp add: rag_requirements_def Let_def)
  have fin: "final_ids jdText vectorStore options extraction embedSvc
       = add_ranked
           (or_default (finalContextLimit options) 15
              + int (length (fixed_ids (or_default (includeSummary options) True)
                               (or_default (includeEducation options) True) vectorStore)))
           (sorted_ids (chunk_scores (or_default (reqMatchCount options) 6) vectorStore
              (req_embeddings
                 (embedSvc (rag_requirements jdText (or_default (requirementCount options) 6)
                              extraction)))))
           (fixed_ids (or_default (includeSummary options) True)
              (or_default (includeEducation options) True) vectorStore)"
    by (simp add: final_ids_def Let_def set_size_def)
  have ctx: "getRagContext jdText vectorStore options extraction embedSvc
       = js_join (nl @ nl)
           (map render_block
              (filter (\<lambda>doc. item_id doc
                               \<in> set (final_ids jdText vectorStore options extraction embedSvc))
                 vectorStore))"
    by (simp add: getRagContext_def contextBlocks_def rendered_docs_def set_has_def)
  have grd: "getRagContext jdText vectorStore options extraction (guarded_service embedSvc)
       = getRagContext jdText vectorStore options extraction embedSvc"
    by (simp add: getRagContext_def contextBlocks_def rendered_docs_def final_ids_guarded)
  show ?thesis
  proof (intro conjI impI)
    assume "extractRequirementsFromJD jdText (or_default (requirementCount options) 6) extraction = []"
    from req [OF this] fin
    show "final_ids jdText vectorStore options extraction embedSvc
        = add_ranked
            (or_default (finalContextLimit options) 15
               + int (length (fixed_ids (or_default (includeSummary options) True)
                                (or_default (includeEducation options) True) vectorStore)))
            (sorted_ids (chunk_scores (or_default (reqMatchCount options) 6) vectorStore
                           (req_embeddings (embedSvc [take 1000 jdText]))))
            (fixed_ids (or_default (includeSummary options) True)
               (or_default (includeEducation options) True) vectorStore)"
      by simp
  qed (use req ne fin ctx grd in simp_all)
qed

theorem empty_extraction_fallback_witness:
  "length long_jd = 1001
   \<and> extractRequirementsFromJD long_jd 6 CallFails = []
   \<and> rag_requirements long_jd 6 CallFails = [replicate 1000 (CHR ''a'')]
   \<and> svc_prefix_only [long_jd] = EmbedFails
   \<and> final_ids long_jd two_store default_options CallFails svc_prefix_only = [''s1'', ''p1'']
   \<and> getRagContext long_jd two_store default_options CallFails svc_prefix_only
       = js_join (nl @ nl) (map render_block two_store)"
proof -
  have ex: "extractRequirementsFromJD long_jd 6 CallFails = []"
    by (simp add: extractRequirementsFromJD_def extractRequirementsFromJD_try_def)
  have tk: "take 1000 long_jd = replicate 1000 (CHR ''a'')"
    by (simp add: long_jd_def)
  have opts: "or_default (requirementCount default_options) 6 = 6"
    "or_default (reqMatchCount default_options) 6 = 6"
    "or_default (finalContextLimit default_options) 15 = 15"
    "or_default (includeSummary default_options) True = True"
    "or_default (includeEducation default_options) True = True"
    by (simp_all add: default_options_def or_default_def)
  have fixed: "fixed_ids True True two_store = [''s1'']"
    by (simp add: fixed_ids_def two_store_def mk_item_def has_type_def set_add_def)
  have sc: "chunk_scores 6 two_store (req_embeddings (svc_prefix_only [replicate 1000 (CHR ''a'')]))
              = [(''s1'', Num 1), (''p1'', Num 1)]"
    by (simp add: svc_prefix_only_def req_embeddings_def chunk_scores_def req_hits_def
          two_store_def mk_item_def item_score_def cosineSimilarity_def cosine_loop.simps
          js_at_def by_score_desc_def jssub_def js_slice_to_def add_hit_def)
  have ids: "sorted_ids [(''s1'', Num 1), (''p1'', Num 1)] = [''s1'', ''p1'']"
    by (simp add: sorted_ids_def by_score_desc_def jssub_def)
  note inst = empty_extraction_fallback [of long_jd 6 CallFails default_options two_store
               svc_prefix_only]
  have fin: "final_ids long_jd two_store default_options CallFails svc_prefix_only = [''s1'', ''p1'']"
    using inst ex by (simp add: opts tk fixed sc ids set_size_def set_add_def)
  have ctx: "getRagContext long_jd two_store default_options CallFails svc_prefix_only
       = js_join (nl @ nl) (map render_block two_store)"
    using inst unfolding fin by (simp add: two_store_def mk_item_def)
  have req: "rag_requirements long_jd 6 CallFails = [replicate 1000 (CHR ''a'')]"
    using inst ex by (simp add: tk)
  have "svc_prefix_only [long_jd] = EmbedFails"
    by (simp add: svc_prefix_only_def long_jd_def)
  moreover have "length long_jd = 1001" by (simp add: long_jd_def)
  ultimately show ?thesis using ex req fin ctx by simp
qed


section \<open>Properties of the retriever\<close>

lemma set_add_props:
  "set (set_add x s) = insert x (set s)"
  "distinct s \<Longrightarrow> distinct (set_add x s)"
  "length (set_add x s) \<le> Suc (length s)"
  by (auto simp: set_add_def)

lemma add_all_props:
  "set (foldl (\<lambda>s d. set_add (item_id d) s) s0 ds) = set s0 \<union> item_id ` set ds"
  "distinct s0 \<Longrightarrow> distinct (foldl (\<lambda>s d. set_add (item_id d) s) s0 ds)"
  by (induction ds arbitrary: s0) (auto simp: set_add_props)

lemma fixed_ids_set:
  "set (fixed_ids inclS inclE store) = item_id ` set (filter (is_fixed inclS inclE) store)"
  by (auto simp: fixed_ids_def Let_def add_all_props is_fixed_def)

lemma fixed_ids_distinct: "distinct (fixed_ids inclS inclE store)"
  by (simp add: fixed_ids_def Let_def add_all_props)

lemma length_le_of_distinct_subset:
  "distinct xs \<Longrightarrow> set xs \<subseteq> set ys \<Longrightarrow> length xs \<le> length ys"
  by (metis card_mono distinct_card List.finite_set card_length le_trans)

lemma fixed_ids_length:
  "length (fixed_ids inclS inclE store) \<le> length (filter (is_fixed inclS inclE) store)"
proof -
  have "set (fixed_ids inclS inclE store) \<subseteq> set (map item_id (filter (is_fixed inclS inclE) store))"
    by (simp add: fixed_ids_set)
  from length_le_of_distinct_subset [OF fixed_ids_distinct this] show ?thesis by simp
qed

lemma add_ranked_distinct: "distinct fin \<Longrightarrow> distinct (add_ranked b uids fin)"
  by (induction uids arbitrary: fin) (auto simp: set_add_props)

lemma add_ranked_length:
  "length (add_ranked b uids fin) \<le> max (length fin) (nat b)"
proof (induction uids arbitrary: fin)
  case Nil
  then show ?case by simp
next
  case (Cons u us)
  show ?case
  proof (cases "b \<le> int (set_size fin)")
    case True
    then show ?thesis by simp
  next
    case False
    then have "Suc (length fin) \<le> nat b" by (simp add: set_size_def)
    moreover have "length (set_add u fin) \<le> Suc (length fin)" by (rule set_add_props)
    ultimately have "max (length (set_add u fin)) (nat b) = nat b" by simp
    with Cons.IH [of "set_add u fin"] False show ?thesis by simp
  qed
qed

lemma add_ranked_full: "b \<le> int (length fin) \<Longrightarrow> add_ranked b uids fin = fin"
  by (cases uids) (simp_all add: set_size_def)

lemma length_filter_ids:
  assumes "distinct (map item_id store)" "distinct ids"
  shows "length (filter (\<lambda>d. item_id d \<in> set ids) store) \<le> length ids"
proof -
  let ?sel = "filter (\<lambda>d. item_id d \<in> set ids) store"
  have "distinct (map item_id ?sel)" using assms(1) by (rule distinct_map_filter)
  moreover have "set (map item_id ?sel) \<subseteq> set ids" by auto
  ultimately have "length (map item_id ?sel) \<le> length ids"
    by (rule length_le_of_distinct_subset)
  then show ?thesis by simp
qed

lemma filter_by_image:
  assumes "distinct (map item_id store)"
  shows "filter (\<lambda>d. item_id d \<in> item_id ` set (filter P store)) store = filter P store"
proof (rule filter_cong [OF refl])
  fix d assume d: "d \<in> set store"
  have inj: "inj_on item_id (set store)" using assms by (simp add: distinct_map)
  show "(item_id d \<in> item_id ` set (filter P store)) = P d"
  proof
    assume "item_id d \<in> item_id ` set (filter P store)"
    then obtain e where e: "e \<in> set store" "P e" "item_id d = item_id e" by auto
    with inj d have "d = e" by (auto dest: inj_onD)
    with e show "P d" by simp
  next
    assume "P d" with d show "item_id d \<in> item_id ` set (filter P store)" by auto
  qed
qed

text \<open>
  Claim C1, as amended. For every vector store whose item ids are pairwise distinct, every
  job description, all options and all service behaviour, the number of rendered blocks
  is at most \<open>max(finalContextLimit, 0)\<close> plus the number of fixed-inclusion items; and
  when \<open>finalContextLimit\<close> is 0 (or negative) the context consists of exactly the
  blocks of the fixed inclusions, in store order.
\<close>

theorem context_block_bound:
  assumes "distinct (map item_id vectorStore)"
  shows "length (contextBlocks jdText vectorStore options extraction embedSvc)
           \<le> nat (or_default (finalContextLimit options) 15)
             + length (fixed_items options vectorStore)
         \<and> (or_default (finalContextLimit options) 15 \<le> 0 \<longrightarrow>
              contextBlocks jdText vectorStore options extraction embedSvc
                = map render_block (fixed_items options vectorStore)
              \<and> getRagContext jdText vectorStore options extraction embedSvc
                = js_join (nl @ nl) (map render_block (fixed_items options vectorStore)))"
proof -
  let ?S = "or_default (includeSummary options) True"
  let ?E = "or_default (includeEducation options) True"
  let ?N = "or_default (finalContextLimit options) 15"
  let ?fixed = "fixed_ids ?S ?E vectorStore"
  let ?final = "final_ids jdText vectorStore options extraction embedSvc"
  obtain uids where final: "?final = add_ranked (?N + int (length ?fixed)) uids ?fixed"
    by (simp add: final_ids_def Let_def set_size_def)
  have dist: "distinct ?final"
    unfolding final by (rule add_ranked_distinct) (rule fixed_ids_distinct)
  have "length ?final \<le> max (length ?fixed) (nat (?N + int (length ?fixed)))"
    unfolding final by (rule add_ranked_length)
  also have "\<dots> \<le> nat ?N + length ?fixed" by simp
  also have "\<dots> \<le> nat ?N + length (fixed_items options vectorStore)"
    using fixed_ids_length [of ?S ?E vectorStore] by (simp add: fixed_items_def)
  finally have len: "length ?final \<le> nat ?N + length (fixed_items options vectorStore)" .
  have "length (contextBlocks jdText vectorStore options extraction embedSvc)
          = length (filter (\<lambda>d. item_id d \<in> set ?final) vectorStore)"
    by (simp add: contextBlocks_def rendered_docs_def set_has_def)
  also have "\<dots> \<le> length ?final"
    using assms dist by (rule length_filter_ids)
  finally have bound: "length (contextBlocks jdText vectorStore options extraction embedSvc)
                         \<le> nat ?N + length (fixed_items options vectorStore)"
    using len by simp
  have zero: "contextBlocks jdText vectorStore options extraction embedSvc
                = map render_block (fixed_items options vectorStore)" if "?N \<le> 0"
  proof -
    have "?final = ?fixed"
      unfolding final using that by (intro add_ranked_full) simp
    then show ?thesis
      using filter_by_image [OF assms, of "is_fixed ?S ?E"]
      by (simp add: contextBlocks_def rendered_docs_def set_has_def fixed_ids_set fixed_items_def)
  qed
  show ?thesis using bound zero by (simp add: getRagContext_def)
qed

theorem context_block_bound_witness:
  "distinct (map item_id two_store)
   \<and> length (contextBlocks ''Build APIs'' two_store (limit_options 0) CallFails svc_unit) \<le> 1
   \<and> contextBlocks ''Build APIs'' two_store (limit_options 0) CallFails svc_unit
       = [render_block (mk_item ''s1'' ''summary'' (Some [1, 0]))]"
  using context_block_bound [of two_store "''Build APIs''" "limit_options 0" CallFails svc_unit]
  by (simp add: two_store_def mk_item_def limit_options_def or_default_def fixed_items_def
        is_fixed_def has_type_def)

text \<open>
  The claim as first stated fails for a store in which two items share an id: the final
  set holds ids, and every item whose id is in it is rendered. With a limit of 0, one
  summary item and one project item of the same id, two blocks are rendered.
\<close>

theorem duplicate_id_counterexample:
  "\<not> length (contextBlocks ''Build APIs'' dup_store (limit_options 0) CallFails svc_down)
       \<le> nat 0 + length (fixed_items (limit_options 0) dup_store)"
  by (simp add: contextBlocks_def rendered_docs_def final_ids_def fixed_ids_def Let_def
        dup_store_def mk_item_def limit_options_def or_default_def fixed_items_def is_fixed_def
        has_type_def set_add_def set_has_def set_size_def svc_down_def req_embeddings_def
        chunk_scores_def sorted_ids_def)

lemma vector_store_embedded:
  "d \<in> set (enrichAndEmbedCorpus corpus rid gen embedSvc) \<Longrightarrow> embedding d \<noteq> None"
  by (simp add: enrichAndEmbedCorpus_def vector_store_of_def)

text \<open>
  Claim C2, as amended. If every item of the vector store has an embedding, as holds for
  every store that \<open>enrichAndEmbedCorpus\<close> returns, then no rendered block belongs to
  an item without an embedding. \<open>getRagContext\<close> itself does not exclude such an
  item: the fixed inclusions go by type only, and the ranking gives it the score \<open>-1\<close>.
\<close>

theorem rendered_docs_embedded:
  "((\<forall>d \<in> set vectorStore. embedding d \<noteq> None) \<longrightarrow>
      (\<forall>d \<in> set (rendered_docs jdText vectorStore options extraction embedSvc).
         embedding d \<noteq> None))
   \<and> (\<forall>d \<in> set (rendered_docs jdText (enrichAndEmbedCorpus corpus rid gen indexSvc)
                     options extraction embedSvc). embedding d \<noteq> None)
   \<and> (embedding item = None \<longrightarrow> item_score reqVec item = Num (- 1))"
  by (auto simp: rendered_docs_def item_score_def dest: vector_store_embedded)

theorem rendered_docs_embedded_witness:
  "embedding (mk_item ''s1'' ''summary'' (Some [1, 0])) \<noteq> None
   \<and> embedding (mk_item ''p1'' ''project'' (Some [1, 0])) \<noteq> None
   \<and> list_all (\<lambda>d. embedding d \<noteq> None)
        (rendered_docs ''Build APIs'' two_store default_options (Json [''REST'']) svc_unit)
   \<and> item_score [1] (mk_item ''p1'' ''project'' None) = Num (- 1)"
  using rendered_docs_embedded [of two_store "''Build APIs''" default_options "Json [''REST'']"
          svc_unit "[]" const_rid gen_rejects "\<lambda>i ts. EmbedFails" "mk_item ''p1'' ''project'' None" "[1]"]
  by (simp add: two_store_def mk_item_def list_all_iff)

text \<open>
  The claim as first stated fails: a store with a single item that has no embedding, the
  default options and one requirement. The item is the only hit, with score \<open>-1\<close>,
  and it is rendered.
\<close>

theorem unembedded_item_rendered_counterexample:
  "mk_item ''p1'' ''project'' None
     \<in> set (rendered_docs ''Build APIs'' [mk_item ''p1'' ''project'' None] default_options
              (Json [''REST'']) svc_unit)
   \<and> embedding (mk_item ''p1'' ''project'' None) = None"
  by (simp add: rendered_docs_def final_ids_def fixed_ids_def Let_def
        mk_item_def default_options_def or_default_def
        has_type_def set_add_def set_has_def set_size_def svc_unit_def req_embeddings_def
        chunk_scores_def sorted_ids_def rag_requirements_def extractRequirementsFromJD_def
        extractRequirementsFromJD_try_def req_hits_def item_score_def js_slice_to_def
        add_hit_def by_score_desc_def jssub_def)

section \<open>Properties of the score aggregation\<close>

text \<open>On numeric scores the comparator sort is the stable sort by descending score.\<close>

lemma is_num_iff: "is_num v \<longleftrightarrow> v = Num (the_num v)"
  by (cases v) (simp_all add: is_num_def the_num_def)

lemma js_insert_numeric:
  "is_num (snd x) \<Longrightarrow> \<forall>y \<in> set ys. is_num (snd y) \<Longrightarrow>
   js_insert by_score_desc x ys = insort_key (\<lambda>e. - the_num (snd e)) x ys"
proof (induction ys)
  case Nil
  then show ?case by simp
next
  case (Cons y ys)
  obtain a b where ab: "snd x = Num a" "snd y = Num b"
    using Cons.prems by (auto simp: is_num_iff)
  have "js_positive (by_score_desc x y) \<longleftrightarrow> a < b"
    by (simp add: by_score_desc_def jssub_def ab)
  then show ?case using Cons ab by (auto simp: the_num_def)
qed

lemma js_sort_numeric:
  "\<forall>y \<in> set xs. is_num (snd y) \<Longrightarrow>
   js_sort by_score_desc xs = sort_key (\<lambda>e. - the_num (snd e)) xs"
  by (induction xs) (simp_all add: js_insert_numeric)

lemma js_slice_to_take: "\<exists>m. js_slice_to k xs = take m xs \<and> (0 \<le> k \<longrightarrow> m = nat k)"
  by (auto simp: js_slice_to_def)

lemma sorted_take_drop:
  assumes "sorted (map f xs)"
  shows "\<forall>h \<in> set (take m xs). \<forall>e \<in> set (drop m xs). f h \<le> f e"
proof -
  have "sorted (map f (take m xs) @ map f (drop m xs))"
    using assms by (simp flip: map_append)
  then show ?thesis by (auto simp: sorted_append)
qed

lemma req_hits_top:
  assumes num: "\<forall>d \<in> set store. is_num (item_score r d)"
  shows "\<exists>rest. mset (req_hits K store r @ rest) = mset (all_scores store r)
           \<and> (\<forall>h \<in> set (req_hits K store r). \<forall>e \<in> set rest. the_num (snd e) \<le> the_num (snd h))
           \<and> (0 \<le> K \<longrightarrow> length (req_hits K store r) = min (nat K) (length store))"
proof -
  let ?f = "\<lambda>e::score_entry. - the_num (snd e)"
  let ?sorted = "sort_key ?f (all_scores store r)"
  have numeric: "\<forall>y \<in> set (all_scores store r). is_num (snd y)"
    using num by (auto simp: all_scores_def)
  have "req_hits K store r = js_slice_to K (js_sort by_score_desc (all_scores store r))"
    by (simp add: req_hits_def all_scores_def Let_def)
  also have "\<dots> = js_slice_to K ?sorted"
    by (simp only: js_sort_numeric [OF numeric])
  finally have hits: "req_hits K store r = js_slice_to K ?sorted" .
  obtain m where m: "req_hits K store r = take m ?sorted" "0 \<le> K \<longrightarrow> m = nat K"
    using js_slice_to_take [of K ?sorted] unfolding hits by blast
  have "mset (take m ?sorted @ drop m ?sorted) = mset (all_scores store r)"
    by simp
  moreover have "\<forall>h \<in> set (take m ?sorted). \<forall>e \<in> set (drop m ?sorted). ?f h \<le> ?f e"
    by (rule sorted_take_drop) simp
  moreover have "0 \<le> K \<longrightarrow> length (take m ?sorted) = min (nat K) (length store)"
    using m(2) by (auto simp: all_scores_def)
  ultimately show ?thesis unfolding m(1) by (intro exI [of _ "drop m ?sorted"]) auto
qed

text \<open>Accumulating hits into the score map.\<close>

lemma truthy_or_zero: "(if js_truthy (Num x) then Num x else Num 0) = Num x"
  by simp

lemma numeric_map_lookup:
  assumes "numeric_map m" "map_of m i = Some v"
  shows "v = Num (the_num v)"
proof -
  have "(i, v) \<in> set m" using assms(2) by (rule map_of_SomeD)
  then have "is_num (snd (i, v))" using assms(1) unfolding numeric_map_def by (rule bspec [rotated])
  then show ?thesis by (simp add: is_num_iff [symmetric])
qed

lemma add_hit_map_of:
  assumes "numeric_map m" "is_num (snd h)"
  shows "map_of (add_hit m h) = (map_of m)(fst h \<mapsto> Num (val_of m (fst h) + the_num (snd h)))"
proof -
  obtain s where s: "snd h = Num s" using assms(2) by (auto simp: is_num_iff)
  have "(case map_of m (fst h) of None \<Rightarrow> Num 0
         | Some c \<Rightarrow> if js_truthy c then c else Num 0) = Num (val_of m (fst h))"
  proof (cases "map_of m (fst h)")
    case None
    then show ?thesis by (simp add: val_of_def)
  next
    case (Some c)
    then obtain x where "c = Num x" using numeric_map_lookup [OF assms(1) Some] by auto
    with Some show ?thesis by (simp add: val_of_def the_num_def del: js_truthy.simps add: truthy_or_zero)
  qed
  then show ?thesis
    by (simp add: add_hit_def Let_def update_conv' s the_num_def)
qed

lemma set_update_subset: "set (AList.update k v al) \<subseteq> insert (k, v) (set al)"
  by (induction al) auto

lemma add_hit_numeric:
  assumes "numeric_map m" "is_num (snd h)"
  shows "numeric_map (add_hit m h)"
proof -
  obtain s where s: "snd h = Num s" using assms(2) by (auto simp: is_num_iff)
  obtain v where v: "add_hit m h = AList.update (fst h) (Num v) m"
  proof (cases "map_of m (fst h)")
    case None
    then show ?thesis using that by (simp add: add_hit_def s)
  next
    case (Some c)
    then obtain x where "c = Num x" using numeric_map_lookup [OF assms(1) Some] by auto
    with Some show ?thesis using that
      by (simp add: add_hit_def s truthy_or_zero del: js_truthy.simps)
  qed
  show ?thesis
    unfolding v numeric_map_def
    using set_update_subset [of "fst h" "Num v" m] assms(1)
    by (auto simp: numeric_map_def is_num_def)
qed

lemma add_hit_distinct: "distinct (map fst m) \<Longrightarrow> distinct (map fst (add_hit m h))"
  by (simp add: add_hit_def Let_def distinct_update)

lemma fold_hits:
  assumes "numeric_map m" "\<forall>h \<in> set hs. is_num (snd h)"
  shows "numeric_map (foldl add_hit m hs)
         \<and> (\<forall>i. map_of (foldl add_hit m hs) i =
               (if i \<in> fst ` set hs \<or> map_of m i \<noteq> None
                then Some (Num (val_of m i
                        + sum_list (map (\<lambda>h. if fst h = i then the_num (snd h) else 0) hs)))
                else None))"
  using assms
proof (induction hs arbitrary: m)
  case Nil
  then show ?case
    by (auto simp: val_of_def dest: numeric_map_lookup)
next
  case (Cons h hs)
  let ?m = "add_hit m h"
  have h: "is_num (snd h)" using Cons.prems by simp
  have nm: "numeric_map ?m" using Cons.prems(1) h by (rule add_hit_numeric)
  have mo: "map_of ?m = (map_of m)(fst h \<mapsto> Num (val_of m (fst h) + the_num (snd h)))"
    using Cons.prems(1) h by (rule add_hit_map_of)
  have val: "val_of ?m i = (if i = fst h then val_of m i + the_num (snd h) else val_of m i)" for i
    by (simp add: val_of_def mo the_num_def)
  have dom: "map_of ?m i \<noteq> None \<longleftrightarrow> i = fst h \<or> map_of m i \<noteq> None" for i
    by (simp add: mo)
  from Cons.IH [OF nm] Cons.prems(2)
  have IH: "numeric_map (foldl add_hit ?m hs)"
    "\<And>i. map_of (foldl add_hit ?m hs) i =
        (if i \<in> fst ` set hs \<or> map_of ?m i \<noteq> None
         then Some (Num (val_of ?m i
                 + sum_list (map (\<lambda>h. if fst h = i then the_num (snd h) else 0) hs)))
         else None)"
    by simp_all
  show ?case
  proof (intro conjI allI)
    show "numeric_map (foldl add_hit m (h # hs))" using IH(1) by simp
  next
    fix i
    show "map_of (foldl add_hit m (h # hs)) i =
        (if i \<in> fst ` set (h # hs) \<or> map_of m i \<noteq> None
         then Some (Num (val_of m i
                 + sum_list (map (\<lambda>h. if fst h = i then the_num (snd h) else 0) (h # hs))))
         else None)"
      unfolding foldl_Cons IH(2) val dom by auto
  qed
qed

lemma fold_hits_distinct:
  "distinct (map fst m) \<Longrightarrow> distinct (map fst (foldl add_hit m hs))"
  by (induction hs arbitrary: m) (simp_all add: add_hit_distinct)

lemma chunk_scores_concat:
  "foldl (\<lambda>m r. foldl add_hit m (g r)) m reqs = foldl add_hit m (concat (map g reqs))"
  by (induction reqs arbitrary: m) simp_all

text \<open>The hits of one requirement, and the total of an id over all requirements.\<close>

lemma all_scores_numeric:
  "\<forall>d \<in> set store. is_num (item_score r d) \<Longrightarrow> \<forall>y \<in> set (all_scores store r). is_num (snd y)"
  by (auto simp: all_scores_def)

lemma req_hits_take:
  assumes "\<forall>d \<in> set store. is_num (item_score r d)"
  shows "\<exists>m. req_hits K store r = take m (sort_key by_neg_score (all_scores store r))
             \<and> (0 \<le> K \<longrightarrow> m = nat K)"
proof -
  have "req_hits K store r = js_slice_to K (js_sort by_score_desc (all_scores store r))"
    by (simp add: req_hits_def all_scores_def Let_def)
  also have "\<dots> = js_slice_to K (sort_key by_neg_score (all_scores store r))"
    by (simp only: js_sort_numeric [OF all_scores_numeric [OF assms]])
  finally show ?thesis
    using js_slice_to_take [of K "sort_key by_neg_score (all_scores store r)"] by simp
qed

lemma req_hits_subset:
  assumes "\<forall>d \<in> set store. is_num (item_score r d)"
  shows "set (req_hits K store r) \<subseteq> set (all_scores store r)"
proof -
  obtain m where "req_hits K store r = take m (sort_key by_neg_score (all_scores store r))"
    using req_hits_take [OF assms] by blast
  then show ?thesis using set_take_subset [of m "sort_key by_neg_score (all_scores store r)"]
    by simp
qed

lemma req_hits_distinct:
  assumes "\<forall>d \<in> set store. is_num (item_score r d)" "distinct (map item_id store)"
  shows "distinct (map fst (req_hits K store r))"
proof -
  let ?sorted = "sort_key by_neg_score (all_scores store r)"
  obtain m where m: "req_hits K store r = take m ?sorted"
    using req_hits_take [OF assms(1)] by blast
  have "map fst (all_scores store r) = map item_id store"
    by (simp add: all_scores_def o_def)
  then have "distinct (map fst (all_scores store r))" using assms(2) by simp
  moreover have "mset (map fst ?sorted) = mset (map fst (all_scores store r))"
    by simp
  ultimately have "distinct (map fst ?sorted)"
    using mset_eq_imp_distinct_iff by blast
  then show ?thesis unfolding m by (simp add: take_map [symmetric])
qed

lemma sum_by_key:
  "distinct (map fst hs) \<Longrightarrow>
   sum_list (map (\<lambda>h. if fst h = i then g (snd h) else 0) hs)
     = (case map_of hs i of None \<Rightarrow> (0::real) | Some v \<Rightarrow> g v)"
proof (induction hs)
  case Nil
  then show ?case by simp
next
  case (Cons h hs)
  show ?case
  proof (cases "fst h = i")
    case True
    then have "i \<notin> fst ` set hs" using Cons.prems by auto
    then have "map_of hs i = None" by (simp add: map_of_eq_None_iff)
    with Cons True show ?thesis by (cases h) simp
  next
    case False
    with Cons show ?thesis by (cases h) simp
  qed
qed

lemma hit_score:
  assumes num: "\<forall>d \<in> set store. is_num (item_score r d)"
    and dist: "distinct (map item_id store)"
    and hit: "map_of (req_hits K store r) i = Some v"
  shows "the_num v = score_of_id store r i"
proof -
  have "(i, v) \<in> set (all_scores store r)"
    using req_hits_subset [OF num, of K] map_of_SomeD [OF hit] by auto
  then obtain d where d: "d \<in> set store" "item_id d = i" "v = item_score r d"
    by (auto simp: all_scores_def)
  then obtain d' where d': "find (\<lambda>item. item_id item = i) store = Some d'"
    by (cases "find (\<lambda>item. item_id item = i) store") (auto simp: find_None_iff)
  then have "d' \<in> set store" "item_id d' = i"
    by (auto simp: find_Some_iff)
  moreover have "inj_on item_id (set store)" using dist by (simp add: distinct_map)
  ultimately have "d' = d" using d by (auto dest: inj_onD)
  then show ?thesis using d d' by (simp add: score_of_id_def)
qed

lemma hit_sum:
  assumes num: "\<forall>d \<in> set store. is_num (item_score r d)"
    and dist: "distinct (map item_id store)"
  shows "sum_list (map (\<lambda>h. if fst h = i then the_num (snd h) else 0) (req_hits K store r))
           = (if i \<in> set (hit_ids K store r) then score_of_id store r i else 0)"
proof (cases "map_of (req_hits K store r) i")
  case None
  then have "i \<notin> set (hit_ids K store r)"
    by (simp add: map_of_eq_None_iff hit_ids_def)
  then show ?thesis
    using None sum_by_key [OF req_hits_distinct [OF num dist], of i the_num K] by simp
next
  case (Some v)
  then have "i \<in> set (hit_ids K store r)"
    using map_of_eq_None_iff [of "req_hits K store r" i] by (simp add: hit_ids_def)
  then show ?thesis
    using Some hit_score [OF num dist Some]
      sum_by_key [OF req_hits_distinct [OF num dist], of i the_num K] by simp
qed

lemma sum_list_concat_map:
  "sum_list (map f (concat (map g rs))) = sum_list (map (\<lambda>r. sum_list (map f (g r))) rs)"
  by (induction rs) simp_all

lemma numeric_scoresD:
  "numeric_scores store reqs \<Longrightarrow> r \<in> set reqs \<Longrightarrow> \<forall>d \<in> set store. is_num (item_score r d)"
  by (auto simp: numeric_scores_def list_all_iff)

lemma chunk_scores_fold:
  "chunk_scores K store reqs = foldl add_hit [] (concat (map (req_hits K store) reqs))"
  by (simp add: chunk_scores_def chunk_scores_concat)

lemma all_hits_numeric:
  assumes "numeric_scores store reqs"
  shows "\<forall>h \<in> set (concat (map (req_hits K store) reqs)). is_num (snd h)"
proof
  fix h assume "h \<in> set (concat (map (req_hits K store) reqs))"
  then obtain r where r: "r \<in> set reqs" "h \<in> set (req_hits K store r)" by auto
  note num = numeric_scoresD [OF assms r(1)]
  have "h \<in> set (all_scores store r)" using req_hits_subset [OF num, of K] r(2) by auto
  then show "is_num (snd h)" using all_scores_numeric [OF num] by blast
qed

lemma fold_hits_empty:
  assumes "\<forall>h \<in> set hs. is_num (snd h)"
  shows "map_of (foldl add_hit [] hs) i =
           (if i \<in> fst ` set hs
            then Some (Num (sum_list (map (\<lambda>h. if fst h = i then the_num (snd h) else 0) hs)))
            else None)"
proof -
  have nm: "numeric_map []" by (simp add: numeric_map_def)
  from conjunct2 [OF fold_hits [OF nm assms]] show ?thesis
    by (simp add: val_of_def)
qed

lemma chunk_scores_lookup:
  assumes dist: "distinct (map item_id store)" and num: "numeric_scores store reqs"
  shows "map_of (chunk_scores K store reqs) i =
           (if \<exists>r \<in> set reqs. i \<in> set (hit_ids K store r)
            then Some (Num (total_score K store reqs i)) else None)"
proof -
  let ?hs = "concat (map (req_hits K store) reqs)"
  have mem: "i \<in> fst ` set ?hs \<longleftrightarrow> (\<exists>r \<in> set reqs. i \<in> set (hit_ids K store r))"
    by (auto simp: hit_ids_def)
  have "sum_list (map (\<lambda>h. if fst h = i then the_num (snd h) else 0) ?hs)
          = sum_list (map (\<lambda>r. sum_list (map (\<lambda>h. if fst h = i then the_num (snd h) else 0)
                                          (req_hits K store r))) reqs)"
    by (rule sum_list_concat_map)
  also have "\<dots> = sum_list (map (\<lambda>r. if i \<in> set (hit_ids K store r)
                                        then score_of_id store r i else 0) reqs)"
    by (rule arg_cong [where f = sum_list], rule map_cong [OF refl])
       (rule hit_sum [OF numeric_scoresD [OF num] dist])
  finally have sum: "sum_list (map (\<lambda>h. if fst h = i then the_num (snd h) else 0) ?hs)
                       = total_score K store reqs i"
    by (simp add: total_score_def)
  show ?thesis
    unfolding chunk_scores_fold
    using fold_hits_empty [OF all_hits_numeric [OF num, of K], of i]
    unfolding sum mem .
qed

lemma chunk_scores_numeric:
  assumes "numeric_scores store reqs"
  shows "numeric_map (chunk_scores K store reqs)"
proof -
  have nm: "numeric_map []" by (simp add: numeric_map_def)
  from conjunct1 [OF fold_hits [OF nm all_hits_numeric [OF assms, of K]]]
  show ?thesis by (simp add: chunk_scores_fold)
qed

lemma chunk_scores_distinct: "distinct (map fst (chunk_scores K store reqs))"
  unfolding chunk_scores_fold by (rule fold_hits_distinct) simp

lemma sorted_ids_numeric:
  assumes "numeric_map cs"
  shows "sorted_ids cs = map fst (sort_key by_neg_score cs)"
  using assms by (simp add: sorted_ids_def numeric_map_def js_sort_numeric)

lemma sorted_ids_ranked:
  assumes dist: "distinct (map item_id store)" and num: "numeric_scores store reqs"
  shows "sorted_wrt (\<lambda>i j. total_score K store reqs j \<le> total_score K store reqs i)
           (sorted_ids (chunk_scores K store reqs))"
    and "distinct (sorted_ids (chunk_scores K store reqs))"
    and "set (sorted_ids (chunk_scores K store reqs))
           = {i. \<exists>r \<in> set reqs. i \<in> set (hit_ids K store r)}"
proof -
  let ?cs = "chunk_scores K store reqs"
  let ?sorted = "sort_key by_neg_score ?cs"
  note ids = sorted_ids_numeric [OF chunk_scores_numeric [OF num, of K]]
  have entry: "the_num (snd e) = total_score K store reqs (fst e)" if "e \<in> set ?cs" for e
  proof -
    have "(fst e, snd e) \<in> set ?cs" using that by simp
    with chunk_scores_distinct [of K store reqs]
    have "map_of ?cs (fst e) = Some (snd e)" by (rule map_of_is_SomeI)
    then have "snd e = Num (total_score K store reqs (fst e))"
      using chunk_scores_lookup [OF dist num, of K "fst e"]
      by (auto split: if_splits)
    then show ?thesis by (simp add: the_num_def)
  qed
  have "sorted (map by_neg_score ?sorted)" by simp
  then have "sorted_wrt (\<lambda>a b. by_neg_score a \<le> by_neg_score b) ?sorted"
    by (simp only: sorted_map)
  then have "sorted_wrt (\<lambda>a b. total_score K store reqs (fst b) \<le> total_score K store reqs (fst a))
               ?sorted"
  proof (rule sorted_wrt_mono_rel [rotated])
    fix a b assume "a \<in> set ?sorted" "b \<in> set ?sorted" "by_neg_score a \<le> by_neg_score b"
    then show "total_score K store reqs (fst b) \<le> total_score K store reqs (fst a)"
      using entry [of a] entry [of b] by simp
  qed
  then show "sorted_wrt (\<lambda>i j. total_score K store reqs j \<le> total_score K store reqs i)
               (sorted_ids ?cs)"
    unfolding ids by (simp add: sorted_wrt_map)
  have "mset (map fst ?sorted) = mset (map fst ?cs)" by simp
  then show "distinct (sorted_ids ?cs)"
    unfolding ids using chunk_scores_distinct [of K store reqs] mset_eq_imp_distinct_iff by blast
  have "set (sorted_ids ?cs) = fst ` set ?cs" unfolding ids by simp
  also have "\<dots> = {i. map_of ?cs i \<noteq> None}"
    by (auto simp: map_of_eq_None_iff)
  also have "\<dots> = {i. \<exists>r \<in> set reqs. i \<in> set (hit_ids K store r)}"
    by (simp add: chunk_scores_lookup [OF dist num])
  finally show "set (sorted_ids ?cs) = {i. \<exists>r \<in> set reqs. i \<in> set (hit_ids K store r)}" .
qed

text \<open>
  Claim C4, as amended. For a vector store whose item ids are pairwise distinct, and
  requirement vectors whose similarity to every store item is a number: per requirement
  the hits are the first entries of the store's score entries in descending order of
  similarity, so no entry left out scores higher than a hit, and for a non-negative
  \<open>reqMatchCount\<close> there are \<open>min(reqMatchCount, store size)\<close> of them; each id's
  aggregated score is the sum, over the requirements in whose top list the id appears,
  of its similarity to that requirement (the cosine similarity, or \<open>-1\<close> for an item
  without embedding), and an id in no top list has no entry; the ranked ids are exactly
  the ids with an entry, each once, in descending order of the aggregated score.
\<close>

theorem score_aggregation:
  assumes "distinct (map item_id store)" "numeric_scores store reqs"
  shows "(\<forall>r \<in> set reqs. \<exists>rest.
            mset (req_hits K store r @ rest) = mset (all_scores store r)
            \<and> (\<forall>h \<in> set (req_hits K store r). \<forall>e \<in> set rest. the_num (snd e) \<le> the_num (snd h))
            \<and> (0 \<le> K \<longrightarrow> length (req_hits K store r) = min (nat K) (length store)))
         \<and> (\<forall>i. map_of (chunk_scores K store reqs) i =
                (if \<exists>r \<in> set reqs. i \<in> set (hit_ids K store r)
                 then Some (Num (total_score K store reqs i)) else None))
         \<and> sorted_wrt (\<lambda>i j. total_score K store reqs j \<le> total_score K store reqs i)
              (sorted_ids (chunk_scores K store reqs))
         \<and> distinct (sorted_ids (chunk_scores K store reqs))
         \<and> set (sorted_ids (chunk_scores K store reqs))
              = {i. \<exists>r \<in> set reqs. i \<in> set (hit_ids K store r)}"
  using req_hits_top [OF numeric_scoresD [OF assms(2)], of _ K]
    chunk_scores_lookup [OF assms, of K] sorted_ids_ranked [OF assms, of K]
  by blast

text \<open>
  Two requirements, five items and \<open>reqMatchCount = 2\<close>: item \<open>A\<close> is second in
  both top lists with similarities \<open>3/5\<close> and \<open>4/5\<close>, so its total \<open>7/5\<close> ranks it
  before \<open>B\<close>, which is first in one list with similarity 1.
\<close>

lemmas eval_defs = all_scores_def five_store_def mk_item_def item_score_def
  cosineSimilarity_def cosine_loop.simps js_at_def

lemma five_store_scores_first:
  "all_scores five_store [1, 0] =
     [(''A'', Num (3 / 5)), (''B'', Num 1), (''C'', Num 0), (''D'', Num (- 1)), (''E'', Num 0)]"
  by (simp add: eval_defs)

lemma five_store_scores_second:
  "all_scores five_store [0, 1] =
     [(''A'', Num (4 / 5)), (''B'', Num 0), (''C'', Num 1), (''D'', Num 0), (''E'', Num (- 1))]"
  by (simp add: eval_defs)

lemma req_hits_unfold: "req_hits K store r = js_slice_to K (js_sort by_score_desc (all_scores store r))"
  by (simp add: req_hits_def all_scores_def Let_def)

lemma five_store_hits_first: "req_hits 2 five_store [1, 0] = [(''B'', Num 1), (''A'', Num (3 / 5))]"
  by (simp add: req_hits_unfold five_store_scores_first by_score_desc_def jssub_def js_slice_to_def)

lemma five_store_hits_second: "req_hits 2 five_store [0, 1] = [(''C'', Num 1), (''A'', Num (4 / 5))]"
  by (simp add: req_hits_unfold five_store_scores_second by_score_desc_def jssub_def js_slice_to_def)

lemma five_store_chunk_scores: "chunk_scores 2 five_store two_reqs = [(''B'', Num 1), (''A'', Num (7 / 5)), (''C'', Num 1)]"
  by (simp add: chunk_scores_def two_reqs_def five_store_hits_first five_store_hits_second add_hit_def)

theorem score_aggregation_witness:
  "distinct (map item_id five_store)
   \<and> numeric_scores five_store two_reqs
   \<and> hit_ids 2 five_store [1, 0] = [''B'', ''A'']
   \<and> hit_ids 2 five_store [0, 1] = [''C'', ''A'']
   \<and> map_of (chunk_scores 2 five_store two_reqs) ''A''
       = Some (Num (total_score 2 five_store two_reqs ''A''))
   \<and> total_score 2 five_store two_reqs ''A'' = 7 / 5
   \<and> total_score 2 five_store two_reqs ''B'' = 1
   \<and> sorted_ids (chunk_scores 2 five_store two_reqs) = [''A'', ''B'', ''C'']"
proof -
  have d: "distinct (map item_id five_store)"
    by (simp add: five_store_def mk_item_def)
  have n: "numeric_scores five_store two_reqs"
    using five_store_scores_first five_store_scores_second
    by (simp add: numeric_scores_def two_reqs_def all_scores_def five_store_def is_num_def)
  have ids: "hit_ids 2 five_store [1, 0] = [''B'', ''A'']" "hit_ids 2 five_store [0, 1] = [''C'', ''A'']"
    by (simp_all add: hit_ids_def five_store_hits_first five_store_hits_second)
  have sc: "score_of_id five_store [1, 0] ''A'' = 3 / 5" "score_of_id five_store [0, 1] ''A'' = 4 / 5"
    "score_of_id five_store [1, 0] ''B'' = 1"
    by (simp_all add: score_of_id_def eval_defs the_num_def)
  have tA: "total_score 2 five_store two_reqs ''A'' = 7 / 5"
    by (simp add: total_score_def two_reqs_def ids sc)
  have tB: "total_score 2 five_store two_reqs ''B'' = 1"
    by (simp add: total_score_def two_reqs_def ids sc)
  have s: "sorted_ids (chunk_scores 2 five_store two_reqs) = [''A'', ''B'', ''C'']"
    by (simp add: five_store_chunk_scores sorted_ids_def by_score_desc_def jssub_def)
  have "map_of (chunk_scores 2 five_store two_reqs) ''A''
          = Some (Num (total_score 2 five_store two_reqs ''A''))"
    using score_aggregation [OF d n, of 2] by (simp add: two_reqs_def ids)
  then show ?thesis using d n ids tA tB s by simp
qed

text \<open>
  The claim as first stated fails when two items share an id: both are hits of the one
  requirement, and the id's aggregated score is 2, the sum over both items, not its
  similarity 1 to the requirement.
\<close>

theorem shared_id_score_counterexample:
  "map_of (chunk_scores 2 dup_store [[1, 0]]) ''a''
     \<noteq> Some (Num (total_score 2 dup_store [[1, 0]] ''a''))"
proof -
  have sc: "all_scores dup_store [1, 0] = [(''a'', Num 1), (''a'', Num 1)]"
    by (simp add: all_scores_def dup_store_def mk_item_def item_score_def
          cosineSimilarity_def cosine_loop.simps js_at_def)
  have hits: "req_hits 2 dup_store [1, 0] = [(''a'', Num 1), (''a'', Num 1)]"
    by (simp add: req_hits_unfold sc by_score_desc_def jssub_def js_slice_to_def)
  have cs: "chunk_scores 2 dup_store [[1, 0]] = [(''a'', Num 2)]"
    by (simp add: chunk_scores_def hits add_hit_def)
  have "score_of_id dup_store [1, 0] ''a'' = 1"
    by (simp add: score_of_id_def dup_store_def mk_item_def item_score_def
          cosineSimilarity_def cosine_loop.simps js_at_def the_num_def)
  then have "total_score 2 dup_store [[1, 0]] ''a'' = 1"
    by (simp add: total_score_def hit_ids_def hits)
  then show ?thesis by (simp add: cs)
qed

end
